theory Spec2Isabelle
  imports Complex_Main "HOL-Library.AList"
begin

section \<open>Python values\<close>

text \<open>
  A Python \<^verbatim>\<open>str\<close> is a sequence of Unicode code points, so it is modelled as a list of
  natural numbers. \<open>ascii\<close> writes a literal of the source whose characters are all ASCII;
  the few non-ASCII characters of the source (the German diacritics) are written as their
  code points.
\<close>

type_synonym ustring = "nat list"

definition ascii :: "string \<Rightarrow> ustring" where
  "ascii s = map of_char s"

text \<open>\<^verbatim>\<open>sep.join(xs)\<close>\<close>

fun join :: "ustring \<Rightarrow> ustring list \<Rightarrow> ustring" where
  "join sep [] = []"
| "join sep [x] = x"
| "join sep (x # y # ys) = x @ sep @ join sep (y # ys)"

text \<open>
  \<^verbatim>\<open>s.replace(old, new)\<close> for a one-character \<^verbatim>\<open>old\<close>, the only way the source calls it:
  every occurrence of the code point is replaced.
\<close>

definition replace :: "nat \<Rightarrow> ustring \<Rightarrow> ustring \<Rightarrow> ustring" where
  "replace old new s = concat (map (\<lambda>c. if c = old then new else [c]) s)"

text \<open>
  What \<^verbatim>\<open>json.loads\<close> returns. A Python dict has each key once; it is an association list
  read with \<open>map_of\<close>.
\<close>

datatype json =
    JNull
  | JBool bool
  | JInt int
  | JFloat real
  | JStr ustring
  | JList "json list"
  | JDict "(ustring \<times> json) list"

text \<open>\<^verbatim>\<open>z.get(key)\<close> on a value that passed \<^verbatim>\<open>isinstance(z, dict)\<close>.\<close>

definition dict_get :: "(ustring \<times> json) list \<Rightarrow> ustring \<Rightarrow> json option" where
  "dict_get kvs k = map_of kvs k"

section \<open>Status model (coordinator.py)\<close>

text \<open>
  \<^verbatim>\<open>normalize_name\<close>: the chain of \<^verbatim>\<open>replace\<close> calls in the order of the source. The code
  points are \<^verbatim>\<open>.\<close> 46, space 32, \<^verbatim>\<open>-\<close> 45, \<^verbatim>\<open>/\<close> 47, \<^verbatim>\<open>_\<close> 95 and the diacritics
  U+00E4 228, U+00C4 196, U+00F6 246, U+00D6 214, U+00FC 252, U+00DC 220, U+00DF 223.
\<close>

definition normalize_name :: "ustring \<Rightarrow> ustring" where
  "normalize_name name =
     (replace 223 (ascii ''ss'')
     (replace 220 (ascii ''ue'')
     (replace 252 (ascii ''ue'')
     (replace 214 (ascii ''oe'')
     (replace 246 (ascii ''oe'')
     (replace 196 (ascii ''ae'')
     (replace 228 (ascii ''ae'')
     (replace 47 (ascii ''_'')
     (replace 45 (ascii ''_'')
     (replace 32 (ascii ''_'')
     (replace 46 (ascii ''_'') name)))))))))))"

text \<open>\<^verbatim>\<open>make_spoken_zone_list\<close>; \<^verbatim>\<open>zones[-1]\<close> is \<open>last\<close> and \<^verbatim>\<open>zones[:-1]\<close> is \<open>butlast\<close>.\<close>

definition make_spoken_zone_list :: "ustring list \<Rightarrow> ustring" where
  "make_spoken_zone_list zones =
     (if zones = [] then []
      else if length zones = 1 then
        ascii ''Ich konnte die Alarmanlage nicht aktivieren, bitte schlie'' @ [223]
          @ ascii ''e: '' @ hd zones @ ascii ''.''
      else
        ascii ''Ich konnte die Alarmanlage nicht aktivieren, bitte folgende Fenster und T''
          @ [252] @ ascii ''ren schlie'' @ [223] @ ascii ''en: ''
          @ join (ascii '', '') (butlast zones) @ ascii '' und '' @ last zones @ ascii ''.'')"

text \<open>
  One value of the zones dict: the dict literal with the keys \<^verbatim>\<open>name\<close>, \<^verbatim>\<open>friendly_name\<close>
  and \<^verbatim>\<open>state\<close> that \<^verbatim>\<open>build_zones_dict\<close> stores. All three are strings by construction.
\<close>

record zone =
  name :: ustring
  friendly_name :: ustring
  state :: ustring

text \<open>
  The zones dict. Python dicts keep insertion order, and assigning to a key that is present
  replaces the value in place: this is \<open>AList.update\<close>.
\<close>

type_synonym zones_dict = "(ustring \<times> zone) list"

text \<open>
  \<^verbatim>\<open>zone_name_map.get(key) or zone_name_map.get(raw_name)\<close>, then the fallback
  \<^verbatim>\<open>key.replace("_", " ")\<close> when the result is \<^verbatim>\<open>None\<close> or empty.
\<close>

definition py_or :: "ustring option \<Rightarrow> ustring option \<Rightarrow> ustring option" where
  "py_or a b = (case a of None \<Rightarrow> b | Some s \<Rightarrow> if s = [] then b else Some s)"

definition friendly_of :: "(ustring \<rightharpoonup> ustring) \<Rightarrow> ustring \<Rightarrow> ustring \<Rightarrow> ustring" where
  "friendly_of zone_name_map key raw_name =
     (case py_or (zone_name_map key) (zone_name_map raw_name) of
        None \<Rightarrow> replace 95 (ascii '' '') key
      | Some friendly \<Rightarrow> if friendly = [] then replace 95 (ascii '' '') key else friendly)"

text \<open>
  The body of the loop of \<^verbatim>\<open>build_zones_dict\<close> for one payload entry: \<open>None\<close> is
  \<^verbatim>\<open>continue\<close>, otherwise the key and the record that are stored.
\<close>

definition zone_entry :: "(ustring \<rightharpoonup> ustring) \<Rightarrow> json \<Rightarrow> (ustring \<times> zone) option" where
  "zone_entry zone_name_map z =
     (case z of
        JDict kvs \<Rightarrow>
          (case (dict_get kvs (ascii ''name''), dict_get kvs (ascii ''state'')) of
             (Some (JStr raw_name), Some (JStr st)) \<Rightarrow>
               (let key = normalize_name raw_name;
                    friendly = friendly_of zone_name_map key raw_name
                in Some (key, \<lparr>name = raw_name, friendly_name = friendly, state = st\<rparr>))
           | _ \<Rightarrow> None)
      | _ \<Rightarrow> None)"

fun build_loop :: "(ustring \<rightharpoonup> ustring) \<Rightarrow> json list \<Rightarrow> zones_dict \<Rightarrow> zones_dict" where
  "build_loop zone_name_map [] out = out"
| "build_loop zone_name_map (z # zones_payload) out =
     (case zone_entry zone_name_map z of
        None \<Rightarrow> build_loop zone_name_map zones_payload out
      | Some (key, v) \<Rightarrow> build_loop zone_name_map zones_payload (AList.update key v out))"

definition build_zones_dict :: "json list \<Rightarrow> (ustring \<rightharpoonup> ustring) \<Rightarrow> zones_dict" where
  "build_zones_dict zones_payload zone_name_map = build_loop zone_name_map zones_payload []"

text \<open>
  The entries that pass both \<^verbatim>\<open>isinstance\<close> checks of the loop, and the payload made of the
  raw \<^verbatim>\<open>name\<close> and \<^verbatim>\<open>state\<close> fields of a zones dict (what a caller rebuilds from).
\<close>

definition is_valid :: "json \<Rightarrow> bool" where
  "is_valid z =
     (case z of
        JDict kvs \<Rightarrow>
          (case (dict_get kvs (ascii ''name''), dict_get kvs (ascii ''state'')) of
             (Some (JStr raw_name), Some (JStr st)) \<Rightarrow> True
           | _ \<Rightarrow> False)
      | _ \<Rightarrow> False)"

definition raw_fields :: "zones_dict \<Rightarrow> json list" where
  "raw_fields out =
     map (\<lambda>(key, v). JDict [(ascii ''name'', JStr (name v)), (ascii ''state'', JStr (state v))]) out"

section \<open>Exceptions\<close>

text \<open>
  The exceptions the code raises and catches. The message of an exception is kept symbolic:
  every constructor of \<open>api_error\<close> and \<open>ha_error\<close> stands for one f-string of the source,
  with the values it interpolates, and \<open>Repr e\<close> stands for \<^verbatim>\<open>repr(e)\<close>.
  \<open>OtherException\<close> is any other subclass of \<^verbatim>\<open>Exception\<close>.
\<close>

datatype exn =
    TimeoutError
  | ClientConnectorError
  | ServerDisconnectedError
  | ClientOSError
  | ClientPayloadError
  | ClientResponseError nat
  | TypeError
  | OtherException ustring
  | SecvestApiError api_error
  | HomeAssistantError ha_error
  | UpdateFailed message
and api_error =
    AuthFailed nat ustring
  | Conflict ustring
  | HttpError nat ustring
  | NotJson nat ustring
  | UnexpectedError ustring exn
  | FailedAfterRetries "exn option"
  | InvalidModePayload "json option"
  | InvalidZonesPayload "json option"
and ha_error =
    InvalidMode json
  | StatusUnknown
  | Msg ustring
  | TimeoutMsg
  | TimeoutEntityMsg
  | ApiFehler exn
  | HttpFehler nat
  | UnbekannterFehler exn
and message =
    Lit ustring
  | Repr exn

text \<open>
  \<^verbatim>\<open>a or b\<close> on an optional message: \<^verbatim>\<open>None\<close> and the empty string are falsy; the \<^verbatim>\<open>repr\<close>
  of an exception is never empty.
\<close>

definition msg_or :: "message option \<Rightarrow> message \<Rightarrow> message" where
  "msg_or a b =
     (case a of
        None \<Rightarrow> b
      | Some (Lit s) \<Rightarrow> if s = [] then b else Lit s
      | Some (Repr e) \<Rightarrow> Repr e)"

section \<open>Device client (api.py)\<close>

record SecvestAuth =
  username :: ustring
  password :: ustring
  user_code :: ustring

record SecvestApi =
  host :: ustring
  auth :: SecvestAuth
  verify_ssl :: bool
  retries :: int

text \<open>\<^verbatim>\<open>SecvestApi.__init__\<close>: \<^verbatim>\<open>host.rstrip("/")\<close> removes every trailing slash (code point 47).\<close>

definition SecvestApi_init :: "ustring \<Rightarrow> SecvestAuth \<Rightarrow> bool \<Rightarrow> int \<Rightarrow> SecvestApi" where
  "SecvestApi_init h a v r =
     \<lparr>host = rev (dropWhile (\<lambda>c. c = 47) (rev h)), auth = a, verify_ssl = v, retries = r\<rparr>"

text \<open>
  What the client hands to \<^verbatim>\<open>session.request\<close> (the timeout is the constant of the client
  and is left out).
\<close>

record request =
  http_method :: ustring
  url :: ustring
  json_payload :: "json option"
  basic_auth :: "ustring \<times> ustring"
  ssl :: bool
  headers :: "(ustring \<times> ustring) list"

text \<open>
  What the panel answers. \<open>Raises e\<close>: the request raised \<open>e\<close>. \<open>Response status b\<close>: a
  response arrived; \<open>b\<close> is what reading its body gives, either an exception or the text
  \<^verbatim>\<open>(await resp.text()).strip()\<close> together with what \<^verbatim>\<open>json.loads\<close> makes of that text
  (\<open>None\<close>: \<^verbatim>\<open>JSONDecodeError\<close>).
\<close>

datatype body = BodyError exn | Body ustring "json option"

datatype http_result = Raises exn | Response nat body

text \<open>
  The trace of what the client did, oldest first: the requests it sent and its sleeps.
  \<open>Sleep attempt\<close> is the call \<^verbatim>\<open>asyncio.sleep(self._backoff(attempt))\<close>. The panel is any
  function from the trace so far and the request to an answer, so it may answer the same
  request differently each time.
\<close>

datatype event = Request request | Sleep int

type_synonym panel = "event list \<Rightarrow> request \<Rightarrow> http_result"

text \<open>\<^verbatim>\<open>_backoff\<close>, with the value of \<^verbatim>\<open>random.random()\<close> as an argument.\<close>

definition backoff :: "int \<Rightarrow> real \<Rightarrow> real" where
  "backoff attempt rnd = 1.2 * 2 ^ nat (attempt - 1) + rnd * 0.4"

definition common_headers :: "(ustring \<times> ustring) list" where
  "common_headers =
     [(ascii ''Accept'', ascii ''application/json''), (ascii ''Connection'', ascii ''close'')]"

text \<open>The arguments of \<^verbatim>\<open>self._session.request\<close> for one path.\<close>

definition make_request ::
  "SecvestApi \<Rightarrow> ustring \<Rightarrow> json option \<Rightarrow> (ustring \<times> ustring) list option \<Rightarrow> ustring \<Rightarrow> request" where
  "make_request self meth payload hdrs path =
     \<lparr>http_method = meth,
      url = host self @ path,
      json_payload = payload,
      basic_auth = (username (auth self), password (auth self)),
      ssl = (if verify_ssl self then True else False),
      headers = (case hdrs of None \<Rightarrow> common_headers
                 | Some h \<Rightarrow> if h = [] then common_headers else h)\<rparr>"

text \<open>
  The exceptions of the first \<^verbatim>\<open>except\<close> clause of \<^verbatim>\<open>_request_json\<close>: they are retried.
\<close>

fun is_transport :: "exn \<Rightarrow> bool" where
  "is_transport TimeoutError = True"
| "is_transport ClientConnectorError = True"
| "is_transport ServerDisconnectedError = True"
| "is_transport ClientOSError = True"
| "is_transport ClientPayloadError = True"
| "is_transport (ClientResponseError status) = True"
| "is_transport e = False"

fun is_api_error :: "exn \<Rightarrow> bool" where
  "is_api_error (SecvestApiError m) = True"
| "is_api_error e = False"

text \<open>
  What the body of the \<^verbatim>\<open>try\<close> does with one answer: \<^verbatim>\<open>continue\<close>, \<^verbatim>\<open>return\<close>, or an
  exception (still to pass the \<^verbatim>\<open>except\<close> clauses).
\<close>

datatype try_result = Continue | Return "json option" | Throw exn

text \<open>\<^verbatim>\<open>_read_json\<close>\<close>

definition read_json :: "nat \<Rightarrow> body \<Rightarrow> try_result" where
  "read_json status b =
     (case b of
        BodyError e \<Rightarrow> Throw e
      | Body text parsed \<Rightarrow>
          (case parsed of
             None \<Rightarrow> Throw (SecvestApiError (NotJson status (take 200 text)))
           | Some j \<Rightarrow> Return (Some j)))"

text \<open>
  The body of the \<^verbatim>\<open>try\<close>; \<open>n\<close> is \<^verbatim>\<open>len(paths_list)\<close>. \<^verbatim>\<open>resp.raise_for_status()\<close> raises
  \<^verbatim>\<open>ClientResponseError\<close> for a status of 400 or more, which here can only be 600 or more.
\<close>

definition try_body :: "nat \<Rightarrow> bool \<Rightarrow> ustring \<Rightarrow> http_result \<Rightarrow> try_result" where
  "try_body n expect_json u r =
     (case r of
        Raises e \<Rightarrow> Throw e
      | Response status b \<Rightarrow>
          if status = 404 \<and> n > 1 then Continue
          else if status = 401 \<or> status = 403 then Throw (SecvestApiError (AuthFailed status u))
          else if status = 409 then
            (case b of BodyError e \<Rightarrow> Throw e
             | Body text parsed \<Rightarrow> Throw (SecvestApiError (Conflict (take 300 text))))
          else if 400 \<le> status \<and> status \<le> 499 then
            (case b of BodyError e \<Rightarrow> Throw e
             | Body text parsed \<Rightarrow> Throw (SecvestApiError (HttpError status (take 300 text))))
          else if 500 \<le> status \<and> status \<le> 599 then Throw (ClientResponseError status)
          else if 400 \<le> status then Throw (ClientResponseError status)
          else if \<not> expect_json then Return None
          else read_json status b)"

text \<open>
  The inner loop \<^verbatim>\<open>for path in paths_list\<close> of one attempt, from the paths still to try.
\<close>

datatype attempt_result =
    Returned "json option"
  | Raised exn
  | Failed exn
  | Exhausted

fun try_paths ::
  "panel \<Rightarrow> (ustring \<Rightarrow> request) \<Rightarrow> nat \<Rightarrow> bool \<Rightarrow> int \<Rightarrow> ustring list \<Rightarrow> event list
     \<Rightarrow> attempt_result \<times> event list" where
  "try_paths session mk n expect_json attempt [] tr = (Exhausted, tr)"
| "try_paths session mk n expect_json attempt (path # rest) tr =
     (let rq = mk path;
          tr1 = tr @ [Request rq]
      in case try_body n expect_json (url rq) (session tr rq) of
           Continue \<Rightarrow> try_paths session mk n expect_json attempt rest tr1
         | Return v \<Rightarrow> (Returned v, tr1)
         | Throw e \<Rightarrow>
             if is_transport e then (Failed e, tr1 @ [Sleep attempt])
             else if is_api_error e then (Raised e, tr1)
             else (Raised (SecvestApiError (UnexpectedError (url rq) e)), tr1))"

text \<open>
  The outer loop \<^verbatim>\<open>for attempt in range(1, self._retries + 1)\<close>, from the attempts still to
  make, with the variable \<^verbatim>\<open>last_exc\<close>; after the loop the final \<^verbatim>\<open>raise\<close>.
\<close>

fun attempts ::
  "panel \<Rightarrow> (ustring \<Rightarrow> request) \<Rightarrow> bool \<Rightarrow> ustring list \<Rightarrow> int list \<Rightarrow> exn option \<Rightarrow> event list
     \<Rightarrow> (exn + json option) \<times> event list" where
  "attempts session mk expect_json paths_list [] last_exc tr =
     (Inl (SecvestApiError (FailedAfterRetries last_exc)), tr)"
| "attempts session mk expect_json paths_list (attempt # later) last_exc tr =
     (case try_paths session mk (length paths_list) expect_json attempt paths_list tr of
        (Returned v, tr') \<Rightarrow> (Inr v, tr')
      | (Raised e, tr') \<Rightarrow> (Inl e, tr')
      | (Failed e, tr') \<Rightarrow> attempts session mk expect_json paths_list later (Some e) tr'
      | (Exhausted, tr') \<Rightarrow> attempts session mk expect_json paths_list later last_exc tr')"

text \<open>\<^verbatim>\<open>_request_json\<close>\<close>

definition request_json ::
  "panel \<Rightarrow> SecvestApi \<Rightarrow> ustring \<Rightarrow> ustring list \<Rightarrow> json option
     \<Rightarrow> (ustring \<times> ustring) list option \<Rightarrow> bool \<Rightarrow> event list
     \<Rightarrow> (exn + json option) \<times> event list" where
  "request_json session self meth paths payload hdrs expect_json tr =
     attempts session (make_request self meth payload hdrs) expect_json paths
       [1 .. retries self] None tr"

definition SecvestApi_get_mode :: "panel \<Rightarrow> SecvestApi \<Rightarrow> event list \<Rightarrow> (exn + ustring) \<times> event list" where
  "SecvestApi_get_mode session self tr =
     (case request_json session self (ascii ''GET'')
             [ascii ''/system/partitions-1/state'', ascii ''/system/partitions-1/state/'']
             None None True tr of
        (Inl e, tr') \<Rightarrow> (Inl e, tr')
      | (Inr d, tr') \<Rightarrow>
          (case d of
             Some (JDict kvs) \<Rightarrow>
               (case dict_get kvs (ascii ''state'') of
                  Some (JStr st) \<Rightarrow> (Inr st, tr')
                | _ \<Rightarrow> (Inl (SecvestApiError (InvalidModePayload d)), tr'))
           | _ \<Rightarrow> (Inl (SecvestApiError (InvalidModePayload d)), tr')))"

definition SecvestApi_get_zones :: "panel \<Rightarrow> SecvestApi \<Rightarrow> event list \<Rightarrow> (exn + json list) \<times> event list" where
  "SecvestApi_get_zones session self tr =
     (case request_json session self (ascii ''GET'')
             [ascii ''/system/partitions-1/zones/'', ascii ''/system/partitions-1/zones'']
             None None True tr of
        (Inl e, tr') \<Rightarrow> (Inl e, tr')
      | (Inr d, tr') \<Rightarrow>
          (case d of
             Some (JList items) \<Rightarrow> (Inr items, tr')
           | _ \<Rightarrow> (Inl (SecvestApiError (InvalidZonesPayload d)), tr')))"

definition SecvestApi_set_mode ::
  "panel \<Rightarrow> SecvestApi \<Rightarrow> ustring \<Rightarrow> event list \<Rightarrow> (exn + unit) \<times> event list" where
  "SecvestApi_set_mode session self new_state tr =
     (case request_json session self (ascii ''PUT'')
             [ascii ''/system/partitions-1/'', ascii ''/system/partitions-1'']
             (Some (JDict [(ascii ''state'', JStr new_state),
                           (ascii ''code'', JStr (user_code (auth self)))]))
             (Some [(ascii ''Content-Type'', ascii ''application/json''),
                    (ascii ''Connection'', ascii ''close'')])
             False tr of
        (Inl e, tr') \<Rightarrow> (Inl e, tr')
      | (Inr d, tr') \<Rightarrow> (Inr (), tr'))"

text \<open>
  The coordinator and the commands are given their client as an object; they use its three
  methods only. \<open>'w\<close> is the state of everything outside (for the client above, the trace).
\<close>

record 'w api =
  get_mode :: "'w \<Rightarrow> (exn + ustring) \<times> 'w"
  get_zones :: "'w \<Rightarrow> (exn + json list) \<times> 'w"
  set_mode :: "ustring \<Rightarrow> 'w \<Rightarrow> (exn + unit) \<times> 'w"

definition secvest_api :: "panel \<Rightarrow> SecvestApi \<Rightarrow> event list api" where
  "secvest_api session self =
     \<lparr>get_mode = SecvestApi_get_mode session self,
      get_zones = SecvestApi_get_zones session self,
      set_mode = SecvestApi_set_mode session self\<rparr>"

section \<open>Polling coordinator (coordinator.py)\<close>

record SecvestData =
  raw_mode :: "ustring option"
  human_mode :: "ustring option"
  zones :: zones_dict
  open_zone_names :: "ustring list"
  open_zones_csv :: ustring
  open_zones_spoken :: ustring
  available :: bool
  last_error :: "message option"

text \<open>
  The attributes of the coordinator. \<open>data\<close> and \<open>update_interval\<close> (in seconds) are those
  of the host's base class \<^verbatim>\<open>DataUpdateCoordinator\<close>; \<open>data\<close> is the published snapshot,
  \<^verbatim>\<open>None\<close> until the first one. \<open>self_last_error\<close> is \<^verbatim>\<open>self._last_error\<close>.
  \<open>refresh_requests\<close> counts the calls of the host's \<^verbatim>\<open>async_request_refresh\<close>. Times are
  the floats of \<^verbatim>\<open>time.time()\<close>, read as real numbers.
\<close>

record SecvestCoordinator =
  data :: "SecvestData option"
  update_interval :: int
  zone_name_map :: "ustring \<rightharpoonup> ustring"
  zones_interval :: int
  zones_tick :: int
  consecutive_failures :: int
  breaker_until :: real
  breaker_threshold :: int
  breaker_cooldown :: int
  self_last_error :: "message option"
  refresh_requests :: nat

text \<open>\<^verbatim>\<open>SecvestCoordinator.__init__\<close>\<close>

definition SecvestCoordinator_init ::
  "int \<Rightarrow> (ustring \<rightharpoonup> ustring) \<Rightarrow> int \<Rightarrow> int \<Rightarrow> int \<Rightarrow> SecvestCoordinator" where
  "SecvestCoordinator_init scan_interval_s name_map zones_interval_s threshold cooldown =
     \<lparr>data = None,
      update_interval = scan_interval_s,
      zone_name_map = name_map,
      zones_interval = zones_interval_s,
      zones_tick = 0,
      consecutive_failures = 0,
      breaker_until = 0,
      breaker_threshold = max 1 threshold,
      breaker_cooldown = max 10 cooldown,
      self_last_error = None,
      refresh_requests = 0\<rparr>"

text \<open>
  \<^verbatim>\<open>_compose_data\<close>. The two \<^verbatim>\<open>isinstance\<close> tests of the comprehension hold for every value
  of a zones dict, by the type of \<open>zone\<close>.
\<close>

definition compose_data ::
  "ustring option \<Rightarrow> ustring option \<Rightarrow> zones_dict \<Rightarrow> bool \<Rightarrow> message option \<Rightarrow> SecvestData" where
  "compose_data rm hm zs av err =
     (let names = map friendly_name (filter (\<lambda>z. state z = ascii ''open'') (map snd zs))
      in \<lparr>raw_mode = rm,
          human_mode = hm,
          zones = zs,
          open_zone_names = names,
          open_zones_csv = join (ascii '', '') names,
          open_zones_spoken = make_spoken_zone_list names,
          available = av,
          last_error = err\<rparr>)"

text \<open>
  \<^verbatim>\<open>async_refresh_zones_now\<close>. An exception of \<^verbatim>\<open>get_zones\<close> leaves the method at its first
  statement. \<^verbatim>\<open>async_set_updated_data\<close> of the host stores the snapshot in \<open>data\<close>.
\<close>

definition async_refresh_zones_now ::
  "'w api \<Rightarrow> SecvestCoordinator \<Rightarrow> 'w \<Rightarrow> (exn + unit) \<times> SecvestCoordinator \<times> 'w" where
  "async_refresh_zones_now a self w =
     (case get_zones a w of
        (Inl e, w') \<Rightarrow> (Inl e, self, w')
      | (Inr zones_payload, w') \<Rightarrow>
          (let zd = build_zones_dict zones_payload (zone_name_map self);
               new_data =
                 (case data self of
                    Some d \<Rightarrow> compose_data (raw_mode d) (human_mode d) zd True (last_error d)
                  | None \<Rightarrow> compose_data None None zd True None)
           in (Inr (),
               self\<lparr>self_last_error := None, consecutive_failures := 0, breaker_until := 0,
                    data := Some new_data\<rparr>,
               w')))"

definition STATE_TRANSLATIONS :: "ustring \<rightharpoonup> ustring" where
  "STATE_TRANSLATIONS =
     map_of [(ascii ''set'', ascii ''Scharf''),
             (ascii ''partset'', ascii ''Teilscharf''),
             (ascii ''unset'', ascii ''Unscharf'')]"

text \<open>
  The \<^verbatim>\<open>try\<close> block of \<^verbatim>\<open>_async_update_data\<close>: \<open>Inl\<close> is the exception that leaves it, with
  the assignments made before it was raised.
\<close>

definition update_try ::
  "'w api \<Rightarrow> SecvestCoordinator \<Rightarrow> 'w \<Rightarrow> (exn + SecvestData) \<times> SecvestCoordinator \<times> 'w" where
  "update_try a self w =
     (case get_mode a w of
        (Inl e, w1) \<Rightarrow> (Inl e, self, w1)
      | (Inr rm, w1) \<Rightarrow>
          (let hm = (case STATE_TRANSLATIONS rm of Some t \<Rightarrow> t | None \<Rightarrow> ascii ''Unbekannt'');
               self1 = self\<lparr>zones_tick := zones_tick self + update_interval self\<rparr>;
               zd0 = (case data self of
                        Some d \<Rightarrow> if zones d \<noteq> [] then zones d else []
                      | None \<Rightarrow> [])
           in if zones_interval self1 \<le> zones_tick self1 then
                (let self2 = self1\<lparr>zones_tick := 0\<rparr>
                 in case get_zones a w1 of
                      (Inl e, w2) \<Rightarrow> (Inl e, self2, w2)
                    | (Inr zones_payload, w2) \<Rightarrow>
                        (Inr (compose_data (Some rm) (Some hm)
                                (build_zones_dict zones_payload (zone_name_map self2)) True None),
                         self2\<lparr>consecutive_failures := 0, breaker_until := 0,
                               self_last_error := None\<rparr>,
                         w2))
              else
                (Inr (compose_data (Some rm) (Some hm) zd0 True None),
                 self1\<lparr>consecutive_failures := 0, breaker_until := 0, self_last_error := None\<rparr>,
                 w1)))"

text \<open>
  The body of an \<^verbatim>\<open>except\<close> clause of \<^verbatim>\<open>_async_update_data\<close>. Both clauses make these
  assignments and end in the same \<^verbatim>\<open>return\<close> or \<^verbatim>\<open>raise\<close>; they differ in what they log.
  \<open>now_exc\<close> is the value of \<^verbatim>\<open>time.time()\<close> read in the clause.
\<close>

definition update_except ::
  "real \<Rightarrow> exn \<Rightarrow> SecvestCoordinator \<Rightarrow> (exn + SecvestData) \<times> SecvestCoordinator" where
  "update_except now_exc err self =
     (let self1 = self\<lparr>consecutive_failures := consecutive_failures self + 1,
                       self_last_error := Some (Repr err)\<rparr>;
          self2 = (if breaker_threshold self1 \<le> consecutive_failures self1
                   then self1\<lparr>breaker_until := now_exc + real_of_int (breaker_cooldown self1)\<rparr>
                   else self1)
      in case data self2 of
           Some d \<Rightarrow>
             (Inr (compose_data (raw_mode d) (human_mode d) (zones d) False (self_last_error self2)),
              self2)
         | None \<Rightarrow>
             (Inl (UpdateFailed (msg_or (self_last_error self2) (Lit (ascii ''Update failed'')))),
              self2))"

text \<open>
  \<^verbatim>\<open>_async_update_data\<close>; \<open>now\<close> is the value of \<^verbatim>\<open>time.time()\<close> read on entry.
\<close>

definition async_update_data ::
  "'w api \<Rightarrow> real \<Rightarrow> real \<Rightarrow> SecvestCoordinator \<Rightarrow> 'w
     \<Rightarrow> (exn + SecvestData) \<times> SecvestCoordinator \<times> 'w" where
  "async_update_data a now now_exc self w =
     (if now < breaker_until self then
        (case data self of
           Some d \<Rightarrow>
             (Inr (compose_data (raw_mode d) (human_mode d) (zones d) False
                     (Some (msg_or (self_last_error self) (Lit (ascii ''Circuit breaker active''))))),
              self, w)
         | None \<Rightarrow> (Inl (UpdateFailed (Lit (ascii ''Circuit breaker active''))), self, w))
      else
        (case update_try a self w of
           (Inr d, self', w') \<Rightarrow> (Inr d, self', w')
         | (Inl err, self', w') \<Rightarrow>
             if err = TimeoutError \<or> is_api_error err then
               (case update_except now_exc err self' of (r, self'') \<Rightarrow> (r, self'', w'))
             else
               (case update_except now_exc err self' of (r, self'') \<Rightarrow> (r, self'', w'))))"

text \<open>
  A scheduled tick of the host: it calls \<^verbatim>\<open>_async_update_data\<close>, stores the snapshot that is
  returned in \<open>data\<close> (which publishes it to the listeners), and keeps \<open>data\<close> when
  \<^verbatim>\<open>UpdateFailed\<close> is raised.
\<close>

definition scheduled_tick ::
  "'w api \<Rightarrow> real \<Rightarrow> real \<Rightarrow> SecvestCoordinator \<Rightarrow> 'w \<Rightarrow> SecvestCoordinator \<times> 'w" where
  "scheduled_tick a now now_exc self w =
     (case async_update_data a now now_exc self w of
        (Inr d, self', w') \<Rightarrow> (self'\<lparr>data := Some d\<rparr>, w')
      | (Inl e, self', w') \<Rightarrow> (self', w'))"

text \<open>
  \<^verbatim>\<open>async_request_refresh\<close> of the host asks for a tick out of schedule; the tick itself is
  a \<open>scheduled_tick\<close> of its own.
\<close>

definition async_request_refresh :: "SecvestCoordinator \<Rightarrow> SecvestCoordinator" where
  "async_request_refresh self = self\<lparr>refresh_requests := Suc (refresh_requests self)\<rparr>"

section \<open>Commands (__init__.py, alarm_control_panel.py)\<close>

definition VALID_MODES :: "ustring set" where
  "VALID_MODES = {ascii ''set'', ascii ''partset'', ascii ''unset''}"

text \<open>
  \<^verbatim>\<open>handle_set_mode\<close>, the service. \<open>mode\<close> is \<^verbatim>\<open>call.data.get("mode")\<close>, any value
  (\<open>JNull\<close> for \<^verbatim>\<open>None\<close>); testing a list or a dict for membership in a set raises
  \<^verbatim>\<open>TypeError\<close>. The \<^verbatim>\<open>except\<close> clauses around \<^verbatim>\<open>api.set_mode\<close> translate three classes of
  exception and let any other pass.
\<close>

definition service_error :: "exn \<Rightarrow> exn" where
  "service_error e =
     (case e of
        TimeoutError \<Rightarrow> HomeAssistantError TimeoutMsg
      | SecvestApiError m \<Rightarrow> HomeAssistantError (ApiFehler e)
      | ClientResponseError status \<Rightarrow> HomeAssistantError (HttpFehler status)
      | _ \<Rightarrow> e)"

definition handle_set_mode ::
  "'w api \<Rightarrow> json \<Rightarrow> SecvestCoordinator \<Rightarrow> 'w \<Rightarrow> (exn + unit) \<times> SecvestCoordinator \<times> 'w" where
  "handle_set_mode a mode coordinator w =
     (case mode of
        JList xs \<Rightarrow> (Inl TypeError, coordinator, w)
      | JDict kvs \<Rightarrow> (Inl TypeError, coordinator, w)
      | JStr m \<Rightarrow>
          if m \<notin> VALID_MODES then (Inl (HomeAssistantError (InvalidMode mode)), coordinator, w)
          else
            (case async_refresh_zones_now a coordinator w of
               (Inl e, c1, w1) \<Rightarrow> (Inl e, c1, w1)
             | (Inr u, c1, w1) \<Rightarrow>
                 (case data c1 of
                    None \<Rightarrow> (Inl (HomeAssistantError StatusUnknown), c1, w1)
                  | Some d \<Rightarrow>
                      if (m = ascii ''set'' \<or> m = ascii ''partset'') \<and> open_zone_names d \<noteq> [] then
                        (Inl (HomeAssistantError
                                (Msg (if open_zones_spoken d \<noteq> [] then open_zones_spoken d
                                      else ascii ''Offene Zonen verhindern Aktivierung.''))),
                         c1, w1)
                      else
                        (case set_mode a m w1 of
                           (Inl e, w2) \<Rightarrow> (Inl (service_error e), c1, w2)
                         | (Inr u', w2) \<Rightarrow> (Inr (), async_request_refresh c1, w2))))
      | _ \<Rightarrow> (Inl (HomeAssistantError (InvalidMode mode)), coordinator, w))"

text \<open>
  \<^verbatim>\<open>SecvestAlarm._set_mode\<close>: every exception of the \<^verbatim>\<open>try\<close> becomes a
  \<^verbatim>\<open>HomeAssistantError\<close>.
\<close>

definition entity_error :: "exn \<Rightarrow> exn" where
  "entity_error e =
     (case e of
        TimeoutError \<Rightarrow> HomeAssistantError TimeoutEntityMsg
      | SecvestApiError m \<Rightarrow> HomeAssistantError (ApiFehler e)
      | ClientResponseError status \<Rightarrow> HomeAssistantError (HttpFehler status)
      | _ \<Rightarrow> HomeAssistantError (UnbekannterFehler e))"

definition SecvestAlarm_set_mode ::
  "'w api \<Rightarrow> ustring \<Rightarrow> SecvestCoordinator \<Rightarrow> 'w \<Rightarrow> (exn + unit) \<times> SecvestCoordinator \<times> 'w" where
  "SecvestAlarm_set_mode a mode coordinator w =
     (case set_mode a mode w of
        (Inl e, w1) \<Rightarrow> (Inl (entity_error e), coordinator, w1)
      | (Inr u, w1) \<Rightarrow> (Inr (), async_request_refresh coordinator, w1))"

text \<open>
  \<^verbatim>\<open>SecvestAlarm._arm_with_live_zone_refresh\<close>: an exception of the refresh is logged and
  dropped, and the snapshot that is there decides.
\<close>

definition arm_with_live_zone_refresh ::
  "'w api \<Rightarrow> ustring \<Rightarrow> SecvestCoordinator \<Rightarrow> 'w \<Rightarrow> (exn + unit) \<times> SecvestCoordinator \<times> 'w" where
  "arm_with_live_zone_refresh a mode coordinator w =
     (case async_refresh_zones_now a coordinator w of
        (r, c1, w1) \<Rightarrow>
          (case data c1 of
             None \<Rightarrow> SecvestAlarm_set_mode a mode c1 w1
           | Some d \<Rightarrow>
               if open_zone_names d \<noteq> [] then
                 (Inl (HomeAssistantError
                         (Msg (if open_zones_spoken d \<noteq> [] then open_zones_spoken d
                               else ascii ''Offene Zonen: '' @ join (ascii '', '') (open_zone_names d)))),
                  c1, w1)
               else SecvestAlarm_set_mode a mode c1 w1))"

definition async_arm_home ::
  "'w api \<Rightarrow> SecvestCoordinator \<Rightarrow> 'w \<Rightarrow> (exn + unit) \<times> SecvestCoordinator \<times> 'w" where
  "async_arm_home a = arm_with_live_zone_refresh a (ascii ''partset'')"

definition async_arm_away ::
  "'w api \<Rightarrow> SecvestCoordinator \<Rightarrow> 'w \<Rightarrow> (exn + unit) \<times> SecvestCoordinator \<times> 'w" where
  "async_arm_away a = arm_with_live_zone_refresh a (ascii ''set'')"

definition async_disarm ::
  "'w api \<Rightarrow> SecvestCoordinator \<Rightarrow> 'w \<Rightarrow> (exn + unit) \<times> SecvestCoordinator \<times> 'w" where
  "async_disarm a = SecvestAlarm_set_mode a (ascii ''unset'')"

section \<open>Runs of the integration\<close>

text \<open>
  Everything that acts on a coordinator after its construction: a scheduled tick (with the two
  clock readings), a forced zone refresh, the service and the three commands of the alarm
  entity. A run is a list of these, applied in order; what a command returns or raises is
  dropped here.
\<close>

datatype operation =
    Tick real real
  | RefreshZonesNow
  | ServiceSetMode json
  | ArmHome
  | ArmAway
  | Disarm

fun step :: "'w api \<Rightarrow> SecvestCoordinator \<times> 'w \<Rightarrow> operation \<Rightarrow> SecvestCoordinator \<times> 'w" where
  "step a (c, w) (Tick now now_exc) = scheduled_tick a now now_exc c w"
| "step a (c, w) RefreshZonesNow = snd (async_refresh_zones_now a c w)"
| "step a (c, w) (ServiceSetMode mode) = snd (handle_set_mode a mode c w)"
| "step a (c, w) ArmHome = snd (async_arm_home a c w)"
| "step a (c, w) ArmAway = snd (async_arm_away a c w)"
| "step a (c, w) Disarm = snd (async_disarm a c w)"

definition run ::
  "'w api \<Rightarrow> operation list \<Rightarrow> SecvestCoordinator \<times> 'w \<Rightarrow> SecvestCoordinator \<times> 'w" where
  "run a ops cw = foldl (step a) cw ops"

text \<open>A snapshot is consistent when its three derived fields are those of its zones dict.\<close>

definition consistent :: "SecvestData \<Rightarrow> bool" where
  "consistent d \<longleftrightarrow>
     open_zone_names d = map friendly_name (filter (\<lambda>z. state z = ascii ''open'') (map snd (zones d)))
     \<and> open_zones_csv d = join (ascii '', '') (open_zone_names d)
     \<and> open_zones_spoken d = make_spoken_zone_list (open_zone_names d)"

text \<open>
  What no operation changes in a coordinator: the two bounds of the breaker stay as they are,
  and the snapshot stays as it is or becomes a consistent one.
\<close>

definition preserved :: "SecvestCoordinator \<Rightarrow> SecvestCoordinator \<Rightarrow> bool" where
  "preserved c c' \<longleftrightarrow>
     breaker_threshold c' = breaker_threshold c
     \<and> breaker_cooldown c' = breaker_cooldown c
     \<and> (data c' = data c \<or> (\<exists>d. data c' = Some d \<and> consistent d))"

section \<open>Concrete inputs\<close>

text \<open>
  Two payload entries whose names normalize to the same key \<^verbatim>\<open>Tuer_1\<close> (the first name is
  \<^verbatim>\<open>T\<close>, U+00FC, \<^verbatim>\<open>r 1\<close>; the second is \<^verbatim>\<open>Tuer 1\<close>), and an entry whose name is the empty
  string.
\<close>

definition entry_tuer_open :: json where
  "entry_tuer_open =
     JDict [(ascii ''name'', JStr [84, 252, 114, 32, 49]), (ascii ''state'', JStr (ascii ''open''))]"

definition entry_tuer_closed :: json where
  "entry_tuer_closed =
     JDict [(ascii ''name'', JStr (ascii ''Tuer 1'')), (ascii ''state'', JStr (ascii ''closed''))]"

definition entry_unnamed :: json where
  "entry_unnamed = JDict [(ascii ''name'', JStr []), (ascii ''state'', JStr (ascii ''open''))]"

subsection \<open>Answers that are retried\<close>

text \<open>
  The answers the client retries: an exception of the first \<^verbatim>\<open>except\<close> clause (timeout,
  connection error, payload error) or a 5xx status; \<open>failure_exn\<close> is the exception that the
  client keeps in \<^verbatim>\<open>last_exc\<close> for such an answer.
\<close>

fun persistent_failure :: "http_result \<Rightarrow> bool" where
  "persistent_failure (Raises e) = is_transport e"
| "persistent_failure (Response status b) = (500 \<le> status \<and> status \<le> 599)"

fun failure_exn :: "http_result \<Rightarrow> exn" where
  "failure_exn (Raises e) = e"
| "failure_exn (Response status b) = ClientResponseError status"

fun is_request :: "event \<Rightarrow> bool" where
  "is_request (Request rq) = True"
| "is_request (Sleep attempt) = False"

subsection \<open>Clients, panels and coordinator states\<close>

text \<open>A client with three attempts, and a panel that never answers.\<close>

definition client0 :: SecvestApi where
  "client0 = SecvestApi_init (ascii ''https://panel/'')
     \<lparr>username = ascii ''user'', password = ascii ''secret'', user_code = ascii ''1234''\<rparr> False 3"

definition panel_down :: panel where
  "panel_down tr rq = Raises TimeoutError"

text \<open>
  A panel with one zone, an open door. It serves the zones at the path without the trailing
  slash only and answers 404 at the other; every other request is answered with the mode
  \<^verbatim>\<open>unset\<close>.
\<close>

definition entry_door_open :: json where
  "entry_door_open =
     JDict [(ascii ''name'', JStr (ascii ''Door'')), (ascii ''state'', JStr (ascii ''open''))]"

definition panel_door_open :: panel where
  \<open>panel_door_open tr rq =
     (if url rq = ascii ''https://panel/system/partitions-1/zones/'' then Response 404 (Body [] None)
      else if url rq = ascii ''https://panel/system/partitions-1/zones'' then
        Response 200 (Body (ascii ''[{"name": "Door", "state": "open"}]'')
                           (Some (JList [entry_door_open])))
      else Response 200 (Body (ascii ''{"state": "unset"}'')
                              (Some (JDict [(ascii ''state'', JStr (ascii ''unset''))]))))\<close>

text \<open>
  The two clients of the examples, a coordinator with a breaker threshold of 3 and a cooldown
  of 300 seconds, and the states it goes through: \<open>published0\<close> after a forced refresh
  against the panel with the open door; \<open>twice_failed\<close> and \<open>tripped\<close> after two and three
  ticks against the panel that never answers (each tick costs the three attempts of
  \<open>failed_attempts\<close>).
\<close>

definition api_door_open :: "event list api" where
  "api_door_open = secvest_api panel_door_open client0"

definition api_down :: "event list api" where
  "api_down = secvest_api panel_down client0"

definition coordinator0 :: SecvestCoordinator where
  "coordinator0 = SecvestCoordinator_init 30 Map.empty 120 3 300"

definition zones_requests :: "event list" where
  "zones_requests =
     [Request (make_request client0 (ascii ''GET'') None None (ascii ''/system/partitions-1/zones/'')),
      Request (make_request client0 (ascii ''GET'') None None (ascii ''/system/partitions-1/zones''))]"

definition door_snapshot :: SecvestData where
  "door_snapshot =
     compose_data None None
       [(ascii ''Door'', \<lparr>name = ascii ''Door'', friendly_name = ascii ''Door'', state = ascii ''open''\<rparr>)]
       True None"

definition published0 :: SecvestCoordinator where
  "published0 = coordinator0\<lparr>data := Some door_snapshot\<rparr>"

definition timed_out :: exn where
  "timed_out = SecvestApiError (FailedAfterRetries (Some TimeoutError))"

definition degraded_snapshot :: SecvestData where
  "degraded_snapshot =
     compose_data None None
       [(ascii ''Door'', \<lparr>name = ascii ''Door'', friendly_name = ascii ''Door'', state = ascii ''open''\<rparr>)]
       False (Some (Repr timed_out))"

definition twice_failed :: "SecvestCoordinator \<times> event list" where
  "twice_failed = run api_down [Tick 1 2, Tick 31 32] (published0, [])"

definition tripped :: "SecvestCoordinator \<times> event list" where
  "tripped = run api_down [Tick 61 62] twice_failed"

fun failed_attempts :: "ustring \<Rightarrow> event list" where
  "failed_attempts path =
     [Request (make_request client0 (ascii ''GET'') None None path), Sleep 1,
      Request (make_request client0 (ascii ''GET'') None None path), Sleep 2,
      Request (make_request client0 (ascii ''GET'') None None path), Sleep 3]"

section \<open>Properties of the status model\<close>

lemma ascii_eq_iff [simp]: "ascii a = ascii b \<longleftrightarrow> a = b"
proof -
  have "inj (of_char :: char \<Rightarrow> nat)"
    by (rule inj_on_inverseI [where g = char_of]) simp
  then show ?thesis
    by (simp add: ascii_def inj_eq inj_mapI)
qed

lemma zone_entry_None_iff: "zone_entry m z = None \<longleftrightarrow> \<not> is_valid z"
  by (simp add: zone_entry_def is_valid_def Let_def split: json.splits option.splits)

lemma zone_entry_Some:
  "zone_entry m z = Some (k, v) \<longleftrightarrow>
     (\<exists>kvs n st. z = JDict kvs \<and> dict_get kvs (ascii ''name'') = Some (JStr n)
        \<and> dict_get kvs (ascii ''state'') = Some (JStr st) \<and> k = normalize_name n
        \<and> v = \<lparr>name = n, friendly_name = friendly_of m k n, state = st\<rparr>)"
  by (auto simp add: zone_entry_def Let_def split: json.splits option.splits)

lemma build_loop_append:
  "build_loop m (xs @ ys) out = build_loop m ys (build_loop m xs out)"
  by (induction xs arbitrary: out) (auto split: option.splits)

lemma build_loop_filter: "build_loop m (filter is_valid zs) out = build_loop m zs out"
proof (induction zs arbitrary: out)
  case Nil
  then show ?case by simp
next
  case (Cons z zs)
  show ?case
  proof (cases "is_valid z")
    case True
    then show ?thesis using Cons.IH by (simp split: option.splits)
  next
    case False
    then have "zone_entry m z = None" by (simp add: zone_entry_None_iff)
    then show ?thesis using False Cons.IH by simp
  qed
qed

lemma build_loop_distinct:
  "distinct (map fst out) \<Longrightarrow> distinct (map fst (build_loop m zs out))"
  by (induction zs arbitrary: out) (auto simp: distinct_update split: option.splits)

lemma build_loop_other_key:
  "\<forall>z \<in> set zs. map_option fst (zone_entry m z) \<noteq> Some k \<Longrightarrow>
     map_of (build_loop m zs out) k = map_of out k"
  by (induction zs arbitrary: out) (auto simp: update_conv' split: option.splits)

lemma build_loop_keys:
  "fst ` set (build_loop m zs out) =
     fst ` set out \<union> {k. \<exists>z \<in> set zs. \<exists>v. zone_entry m z = Some (k, v)}"
proof (induction zs arbitrary: out)
  case Nil
  then show ?case by simp
next
  case (Cons z zs)
  show ?case
  proof (cases "zone_entry m z")
    case None
    then show ?thesis using Cons.IH [of out] by auto
  next
    case (Some kv)
    obtain k v where kv: "kv = (k, v)" by (cases kv)
    have "fst ` set (AList.update k v out) = insert k (fst ` set out)"
      using dom_update [of k v out] by (simp add: dom_map_of_conv_image_fst)
    then show ?thesis using Cons.IH [of "AList.update k v out"] Some kv by auto
  qed
qed

lemma build_loop_inv:
  "\<forall>(k, v) \<in> set out. k = normalize_name (name v) \<and> friendly_name v = friendly_of m k (name v) \<Longrightarrow>
   \<forall>(k, v) \<in> set (build_loop m zs out).
      k = normalize_name (name v) \<and> friendly_name v = friendly_of m k (name v)"
proof (induction zs arbitrary: out)
  case Nil
  then show ?case by simp
next
  case (Cons z zs)
  show ?case
  proof (cases "zone_entry m z")
    case None
    then show ?thesis using Cons by simp
  next
    case (Some kv)
    obtain k v where kv: "kv = (k, v)" by (cases kv)
    have v: "k = normalize_name (name v) \<and> friendly_name v = friendly_of m k (name v)"
      using Some kv by (auto simp: zone_entry_Some)
    have "set (AList.update k v out) \<subseteq> insert (k, v) (set out)"
      by (induction out) auto
    with Cons.prems v
    have "\<forall>(k, v) \<in> set (AList.update k v out).
            k = normalize_name (name v) \<and> friendly_name v = friendly_of m k (name v)"
      by auto
    from Cons.IH [OF this] show ?thesis using Some kv by simp
  qed
qed

lemma update_fresh: "k \<notin> fst ` set al \<Longrightarrow> AList.update k v al = al @ [(k, v)]"
  by (induction al) auto

lemma rebuild_loop:
  "distinct (map fst out) \<Longrightarrow> fst ` set out \<inter> fst ` set acc = {} \<Longrightarrow>
   \<forall>(k, v) \<in> set out. k = normalize_name (name v) \<Longrightarrow>
   build_loop m' (raw_fields out) acc =
     acc @ map (\<lambda>(k, v). (k, v\<lparr>friendly_name := friendly_of m' k (name v)\<rparr>)) out"
proof (induction out arbitrary: acc)
  case Nil
  then show ?case by (simp add: raw_fields_def)
next
  case (Cons p out)
  obtain k v where p: "p = (k, v)" by (cases p)
  let ?v = "v\<lparr>friendly_name := friendly_of m' k (name v)\<rparr>"
  have k: "k = normalize_name (name v)" using Cons.prems(3) p by simp
  have ze: "zone_entry m' (JDict [(ascii ''name'', JStr (name v)), (ascii ''state'', JStr (state v))])
              = Some (k, ?v)"
    using k by (simp add: zone_entry_def dict_get_def Let_def)
  have fresh: "k \<notin> fst ` set acc" using Cons.prems(2) p by auto
  have d: "distinct (map fst out)" and kout: "k \<notin> fst ` set out"
    using Cons.prems(1) p by auto
  have disj: "fst ` set out \<inter> fst ` set (acc @ [(k, ?v)]) = {}"
    using Cons.prems(2) kout by auto
  have inv: "\<forall>(k, v) \<in> set out. k = normalize_name (name v)" using Cons.prems(3) by simp
  have "build_loop m' (raw_fields (p # out)) acc = build_loop m' (raw_fields out) (acc @ [(k, ?v)])"
    using ze p by (simp add: raw_fields_def update_fresh [OF fresh])
  also have "\<dots> = (acc @ [(k, ?v)]) @ map (\<lambda>(k, v). (k, v\<lparr>friendly_name := friendly_of m' k (name v)\<rparr>)) out"
    by (rule Cons.IH [OF d disj inv])
  finally show ?case using p by simp
qed

lemma build_zones_dict_inv:
  "\<forall>(k, v) \<in> set (build_zones_dict zs m).
      k = normalize_name (name v) \<and> friendly_name v = friendly_of m k (name v)"
  unfolding build_zones_dict_def by (rule build_loop_inv) simp

lemma build_zones_dict_distinct: "distinct (map fst (build_zones_dict zs m))"
  unfolding build_zones_dict_def by (rule build_loop_distinct) simp

lemma rebuild_keys:
  "map fst (build_zones_dict (raw_fields (build_zones_dict zs m)) m') = map fst (build_zones_dict zs m)"
proof -
  let ?out = "build_zones_dict zs m"
  have inv: "\<forall>(k, v) \<in> set ?out. k = normalize_name (name v)"
    using build_zones_dict_inv [of zs m] by auto
  have "build_zones_dict (raw_fields ?out) m' =
          map (\<lambda>(k, v). (k, v\<lparr>friendly_name := friendly_of m' k (name v)\<rparr>)) ?out"
    using rebuild_loop [OF build_zones_dict_distinct _ inv, of "[]" m']
    by (simp add: build_zones_dict_def)
  then show ?thesis by (simp add: case_prod_unfold comp_def)
qed

lemma rebuild_same:
  "build_zones_dict (raw_fields (build_zones_dict zs m)) m = build_zones_dict zs m"
proof -
  let ?out = "build_zones_dict zs m"
  have inv: "\<forall>(k, v) \<in> set ?out. k = normalize_name (name v)"
    using build_zones_dict_inv [of zs m] by auto
  have "build_zones_dict (raw_fields ?out) m =
          map (\<lambda>(k, v). (k, v\<lparr>friendly_name := friendly_of m k (name v)\<rparr>)) ?out"
    using rebuild_loop [OF build_zones_dict_distinct _ inv, of "[]" m]
    by (simp add: build_zones_dict_def)
  also have "\<dots> = map (\<lambda>p. p) ?out"
    by (rule map_cong) (use build_zones_dict_inv [of zs m] in auto)
  finally show ?thesis by simp
qed

lemma filter_key_single:
  "distinct (map fst al) \<Longrightarrow> map_of al k = Some v \<Longrightarrow> filter (\<lambda>p. fst p = k) al = [(k, v)]"
proof (induction al)
  case Nil
  then show ?case by simp
next
  case (Cons p al)
  show ?case
  proof (cases "fst p = k")
    case True
    then have "k \<notin> fst ` set al" using Cons.prems(1) by simp
    then have "\<forall>q \<in> set al. fst q \<noteq> k" by (metis imageI)
    then have "filter (\<lambda>p. fst p = k) al = []" by (simp add: filter_empty_conv)
    then show ?thesis using True Cons.prems(2) by (cases p) auto
  next
    case False
    then show ?thesis using Cons by (cases p) auto
  qed
qed

lemmas status_model_defs =
  build_zones_dict_def zone_entry_def is_valid_def raw_fields_def dict_get_def
  normalize_name_def replace_def friendly_of_def py_or_def
  entry_tuer_open_def entry_tuer_closed_def entry_unnamed_def

text \<open>
  C8, as the code has it. \<^verbatim>\<open>build_zones_dict\<close> drops exactly the entries that are not a dict
  or whose \<^verbatim>\<open>name\<close> or \<^verbatim>\<open>state\<close> is missing or not a string: its result is that of the list
  without them, and its keys are the normalized names of all the other entries, the empty name
  among them. It is idempotent: rebuilding from the raw \<^verbatim>\<open>name\<close> and \<^verbatim>\<open>state\<close> fields of its
  result gives the same keys in the same order, whatever the name map, and the same dict with
  the same name map.
\<close>

theorem build_zones_dict_drops_and_rebuilds:
  "build_zones_dict zs m = build_zones_dict (filter is_valid zs) m
   \<and> fst ` set (build_zones_dict zs m) =
       {normalize_name n |n. \<exists>kvs st. JDict kvs \<in> set zs
           \<and> dict_get kvs (ascii ''name'') = Some (JStr n)
           \<and> dict_get kvs (ascii ''state'') = Some (JStr st)}
   \<and> map fst (build_zones_dict (raw_fields (build_zones_dict zs m)) m') = map fst (build_zones_dict zs m)
   \<and> build_zones_dict (raw_fields (build_zones_dict zs m)) m = build_zones_dict zs m"
proof -
  let ?K = "{normalize_name n |n. \<exists>kvs st. JDict kvs \<in> set zs
           \<and> dict_get kvs (ascii ''name'') = Some (JStr n)
           \<and> dict_get kvs (ascii ''state'') = Some (JStr st)}"
  have drops: "build_zones_dict zs m = build_zones_dict (filter is_valid zs) m"
    by (simp add: build_zones_dict_def build_loop_filter)
  have stored: "fst ` set (build_zones_dict zs m) = {k. \<exists>z \<in> set zs. \<exists>v. zone_entry m z = Some (k, v)}"
    using build_loop_keys [of m zs "[]"] by (simp add: build_zones_dict_def)
  have "{k. \<exists>z \<in> set zs. \<exists>v. zone_entry m z = Some (k, v)} = ?K"
  proof (rule set_eqI, rule iffI)
    fix k
    assume "k \<in> {k. \<exists>z \<in> set zs. \<exists>v. zone_entry m z = Some (k, v)}"
    then obtain z v where z: "z \<in> set zs" and e: "zone_entry m z = Some (k, v)"
      by blast
    from e obtain kvs n st where "z = JDict kvs" "dict_get kvs (ascii ''name'') = Some (JStr n)"
      "dict_get kvs (ascii ''state'') = Some (JStr st)" "k = normalize_name n"
      unfolding zone_entry_Some by blast
    with z show "k \<in> ?K" by blast
  next
    fix k
    assume "k \<in> ?K"
    then obtain n kvs st where k: "k = normalize_name n" and z: "JDict kvs \<in> set zs"
      and n: "dict_get kvs (ascii ''name'') = Some (JStr n)"
      and st: "dict_get kvs (ascii ''state'') = Some (JStr st)"
      by blast
    have "zone_entry m (JDict kvs) = Some (k, \<lparr>name = n, friendly_name = friendly_of m k n, state = st\<rparr>)"
      unfolding zone_entry_Some using k n st by blast
    with z show "k \<in> {k. \<exists>z \<in> set zs. \<exists>v. zone_entry m z = Some (k, v)}"
      by blast
  qed
  with stored have keys: "fst ` set (build_zones_dict zs m) = ?K"
    by (rule trans)
  show ?thesis
    by (intro conjI) (rule drops, rule keys, rule rebuild_keys, rule rebuild_same)
qed

theorem build_zones_dict_drops_and_rebuilds_witness:
  "build_zones_dict [JNull, entry_unnamed, entry_tuer_closed] Map.empty
     = build_zones_dict [entry_unnamed, entry_tuer_closed] Map.empty
   \<and> map fst (build_zones_dict
        (raw_fields (build_zones_dict [JNull, entry_unnamed, entry_tuer_closed] Map.empty)) Map.empty)
     = [[], ascii ''Tuer_1'']"
proof -
  note t = build_zones_dict_drops_and_rebuilds
             [of "[JNull, entry_unnamed, entry_tuer_closed]" Map.empty Map.empty]
  have v: "filter is_valid [JNull, entry_unnamed, entry_tuer_closed] = [entry_unnamed, entry_tuer_closed]"
    by (simp add: is_valid_def dict_get_def entry_unnamed_def entry_tuer_closed_def)
  have a: "build_zones_dict [JNull, entry_unnamed, entry_tuer_closed] Map.empty
             = build_zones_dict [entry_unnamed, entry_tuer_closed] Map.empty"
    using t [THEN conjunct1] by (simp only: v)
  have k: "map fst (build_zones_dict [entry_unnamed, entry_tuer_closed] Map.empty) = [[], ascii ''Tuer_1'']"
    by (simp add: status_model_defs ascii_def)
  have c: "map fst (build_zones_dict
        (raw_fields (build_zones_dict [JNull, entry_unnamed, entry_tuer_closed] Map.empty)) Map.empty)
     = [[], ascii ''Tuer_1'']"
    using t [THEN conjunct2, THEN conjunct2, THEN conjunct1] by (simp only: a k)
  show ?thesis using a c by (rule conjI)
qed

text \<open>
  C8 as the specification states it fails: an entry whose name is the empty string is a string
  name, so it is not dropped; it is stored under the empty key.
\<close>

theorem build_zones_dict_keeps_empty_name:
  "build_zones_dict [entry_unnamed] Map.empty
     = [([], \<lparr>name = [], friendly_name = [], state = ascii ''open''\<rparr>)]"
  by (simp add: status_model_defs ascii_def)

text \<open>
  C9. When several valid entries of the payload normalize to the same key, the dict holds that
  key once, with the record of the last of them in list order: for an entry \<open>z\<close> stored under
  \<open>k\<close> and followed by no entry stored under \<open>k\<close>, the only pair of the result with key \<open>k\<close>
  is the record of \<open>z\<close>, whatever came before it.
\<close>

theorem build_zones_dict_last_wins:
  assumes "zone_entry m z = Some (k, v)"
    and "\<forall>z' \<in> set post. map_option fst (zone_entry m z') \<noteq> Some k"
  shows "filter (\<lambda>p. fst p = k) (build_zones_dict (pre @ z # post) m) = [(k, v)]"
proof -
  have "map_of (build_zones_dict (pre @ z # post) m) k
          = map_of (AList.update k v (build_loop m pre [])) k"
    using assms by (simp add: build_zones_dict_def build_loop_append build_loop_other_key)
  then have "map_of (build_zones_dict (pre @ z # post) m) k = Some v"
    by (simp add: update_conv')
  then show ?thesis
    by (rule filter_key_single [OF build_zones_dict_distinct])
qed

theorem build_zones_dict_last_wins_witness:
  "filter (\<lambda>p. fst p = ascii ''Tuer_1'') (build_zones_dict [entry_tuer_open, entry_tuer_closed] Map.empty)
     = [(ascii ''Tuer_1'',
         \<lparr>name = ascii ''Tuer 1'', friendly_name = ascii ''Tuer 1'', state = ascii ''closed''\<rparr>)]"
  using build_zones_dict_last_wins [of Map.empty entry_tuer_closed "ascii ''Tuer_1''"
      "\<lparr>name = ascii ''Tuer 1'', friendly_name = ascii ''Tuer 1'', state = ascii ''closed''\<rparr>"
      "[]" "[entry_tuer_open]"]
  by (simp add: status_model_defs ascii_def)

section \<open>Properties of the device client\<close>

lemma try_paths_failure:
  assumes "persistent_failure (session tr (mk p))"
  shows "try_paths session mk n ej a (p # ps) tr
           = (Failed (failure_exn (session tr (mk p))), tr @ [Request (mk p), Sleep a])"
proof (cases "session tr (mk p)")
  case (Raises e)
  then show ?thesis using assms by (simp add: try_body_def Let_def)
next
  case (Response status b)
  then show ?thesis using assms by (simp add: try_body_def Let_def)
qed

lemma attempts_failure:
  assumes "\<forall>tr rq. persistent_failure (session tr rq)"
  shows "attempts session mk ej (p # ps) as last_exc tr =
           (Inl (SecvestApiError (FailedAfterRetries
                   (if as = [] then last_exc
                    else Some (failure_exn (session
                           (tr @ concat (map (\<lambda>k. [Request (mk p), Sleep k]) (butlast as))) (mk p)))))),
            tr @ concat (map (\<lambda>k. [Request (mk p), Sleep k]) as))"
proof (induction as arbitrary: last_exc tr)
  case Nil
  then show ?case by simp
next
  case (Cons a as)
  have pf: "persistent_failure (session tr (mk p))" using assms by blast
  have tp: "try_paths session mk (length (p # ps)) ej a (p # ps) tr
              = (Failed (failure_exn (session tr (mk p))), tr @ [Request (mk p), Sleep a])"
    using pf by (rule try_paths_failure)
  show ?case
    by (simp only: attempts.simps tp prod.case attempt_result.case Cons.IH) simp
qed

lemma upto_butlast: "1 \<le> n \<Longrightarrow> butlast [1 .. n] = [1 .. n - 1]"
  by (metis butlast_snoc upto_rec2)

text \<open>
  C4. When every request meets a persistent transport failure, \<^verbatim>\<open>_request_json\<close> makes
  exactly \<open>retries\<close> attempts (none when \<open>retries\<close> is below 1): the trace grows by one
  request, to the first candidate path, and one sleep of the backoff of that attempt, for the
  attempts 1 to \<open>retries\<close> in order; the result is the \<^verbatim>\<open>SecvestApiError\<close> that wraps the
  transport error of the last attempt.
\<close>

theorem request_json_persistent_failure:
  assumes "\<forall>tr rq. persistent_failure (session tr rq)"
    and "paths = p # ps"
    and "rq = make_request self meth payload hdrs p"
    and "cycle = (\<lambda>k. [Request rq, Sleep k])"
  shows "request_json session self meth paths payload hdrs ej tr =
           (Inl (SecvestApiError (FailedAfterRetries
                   (if retries self < 1 then None
                    else Some (failure_exn (session (tr @ concat (map cycle [1 .. retries self - 1])) rq))))),
            tr @ concat (map cycle [1 .. retries self]))
         \<and> length (filter is_request (concat (map cycle [1 .. retries self]))) = nat (retries self)
         \<and> filter (\<lambda>e. \<not> is_request e) (concat (map cycle [1 .. retries self]))
             = map Sleep [1 .. retries self]"
proof -
  have cnt: "length (filter is_request (concat (map cycle as))) = length as" for as
    by (induction as) (simp_all add: assms(4))
  have sl: "filter (\<lambda>e. \<not> is_request e) (concat (map cycle as)) = map Sleep as" for as
    by (induction as) (simp_all add: assms(4))
  have e: "([1 .. retries self] = []) = (retries self < 1)" by auto
  have "request_json session self meth paths payload hdrs ej tr =
           (Inl (SecvestApiError (FailedAfterRetries
                   (if retries self < 1 then None
                    else Some (failure_exn (session (tr @ concat (map cycle [1 .. retries self - 1])) rq))))),
            tr @ concat (map cycle [1 .. retries self]))"
    unfolding request_json_def assms(2) attempts_failure [OF assms(1)] e
    by (simp add: assms(3,4) upto_butlast)
  then show ?thesis using cnt [of "[1 .. retries self]"] sl by simp
qed

lemma upto3: "[1 .. (3::int)] = [1, 2, 3]" "[1 .. (2::int)] = [1, 2]" by (simp_all add: upto_rec1)

theorem request_json_persistent_failure_witness:
  "request_json panel_down client0 (ascii ''GET'') [ascii ''/a'', ascii ''/b''] None None True []
     = (Inl (SecvestApiError (FailedAfterRetries (Some TimeoutError))),
        [Request (make_request client0 (ascii ''GET'') None None (ascii ''/a'')), Sleep 1,
         Request (make_request client0 (ascii ''GET'') None None (ascii ''/a'')), Sleep 2,
         Request (make_request client0 (ascii ''GET'') None None (ascii ''/a'')), Sleep 3])"
proof -
  have r: "retries client0 = 3" by (simp add: client0_def SecvestApi_init_def)
  have h: "\<forall>tr rq. persistent_failure (panel_down tr rq)" by (simp add: panel_down_def)
  have f: "failure_exn (panel_down t q) = TimeoutError" for t q by (simp add: panel_down_def)
  note t = request_json_persistent_failure [OF h refl refl refl,
      where self = client0 and meth = "ascii ''GET''" and payload = None and hdrs = None
        and p = "ascii ''/a''" and ps = "[ascii ''/b'']" and ej = True and tr = "[]"]
  from t [THEN conjunct1] show ?thesis
    apply (simp only: r)
    apply (simp add: upto3 f)
    done
qed

lemma try_paths_not_found:
  assumes "session tr (mk p) = Response 404 b" and "1 < n"
  shows "try_paths session mk n ej a (p # q # rest) tr
           = try_paths session mk n ej a (q # rest) (tr @ [Request (mk p)])"
proof -
  have "try_body n ej (url (mk p)) (session tr (mk p)) = Continue"
    using assms by (simp add: try_body_def)
  then show ?thesis
    by (subst try_paths.simps(2)) (simp add: Let_def del: try_paths.simps)
qed

lemma try_paths_extends: "\<exists>evs. snd (try_paths session mk n ej a ps tr) = tr @ evs"
proof (induction ps arbitrary: tr)
  case Nil
  then show ?case by simp
next
  case (Cons p ps)
  obtain evs where "snd (try_paths session mk n ej a ps (tr @ [Request (mk p)])) = (tr @ [Request (mk p)]) @ evs"
    using Cons.IH by blast
  then show ?case
    by (auto simp: Let_def split: try_result.splits)
qed

lemma try_paths_starts:
  "\<exists>evs. snd (try_paths session mk n ej a (p # ps) tr) = tr @ Request (mk p) # evs"
proof -
  obtain evs where "snd (try_paths session mk n ej a ps (tr @ [Request (mk p)])) = (tr @ [Request (mk p)]) @ evs"
    using try_paths_extends by blast
  then show ?thesis
    by (auto simp: Let_def split: try_result.splits)
qed

lemma attempts_extends:
  "\<exists>evs. snd (attempts session mk ej ps as last_exc tr) = tr @ evs"
proof (induction as arbitrary: last_exc tr)
  case Nil
  then show ?case by simp
next
  case (Cons a as)
  obtain r tr' where t: "try_paths session mk (length ps) ej a ps tr = (r, tr')"
    by (cases "try_paths session mk (length ps) ej a ps tr")
  obtain evs where e: "tr' = tr @ evs"
    using try_paths_extends [of session mk "length ps" ej a ps tr] t by auto
  show ?case
  proof (cases r)
    case (Returned v)
    then show ?thesis using t e by simp
  next
    case (Raised x)
    then show ?thesis using t e by simp
  next
    case (Failed x)
    obtain evs' where "snd (attempts session mk ej ps as (Some x) tr') = tr' @ evs'"
      using Cons.IH by blast
    then show ?thesis using t e Failed by simp
  next
    case Exhausted
    obtain evs' where "snd (attempts session mk ej ps as last_exc tr') = tr' @ evs'"
      using Cons.IH by blast
    then show ?thesis using t e Exhausted by simp
  qed
qed

lemma attempts_first:
  assumes "snd (try_paths session mk (length ps) ej a ps tr) = tr @ evs0"
  shows "\<exists>evs. snd (attempts session mk ej ps (a # as) last_exc tr) = tr @ evs0 @ evs"
proof -
  obtain r tr' where t: "try_paths session mk (length ps) ej a ps tr = (r, tr')"
    by (cases "try_paths session mk (length ps) ej a ps tr")
  have e: "tr' = tr @ evs0" using assms t by simp
  show ?thesis
  proof (cases r)
    case (Returned v)
    then show ?thesis using t e by simp
  next
    case (Raised x)
    then show ?thesis using t e by simp
  next
    case (Failed x)
    obtain evs' where "snd (attempts session mk ej ps as (Some x) tr') = tr' @ evs'"
      using attempts_extends by blast
    then show ?thesis using t e Failed by simp
  next
    case Exhausted
    obtain evs' where "snd (attempts session mk ej ps as last_exc tr') = tr' @ evs'"
      using attempts_extends by blast
    then show ?thesis using t e Exhausted by simp
  qed
qed

text \<open>
  C5. When a candidate path is answered with 404 and another candidate follows it, the client
  goes on to that next path in the same attempt: the rest of the attempt runs with the same
  attempt number from the trace that has gained the one request and no sleep. For the first
  path of a request this means that the trace of the whole request continues with the
  request to the first path followed at once by the request to the second. (After a 404 at the
  last candidate there is no path left: the attempt ends without a sleep.)
\<close>

theorem not_found_tries_next_path:
  assumes "session tr (mk p) = Response 404 b"
  shows "(1 < n \<longrightarrow>
            try_paths session mk n ej a (p # q # rest) tr
              = try_paths session mk n ej a (q # rest) (tr @ [Request (mk p)]))
         \<and> (mk = make_request self meth payload hdrs \<and> 1 \<le> retries self \<longrightarrow>
              (\<exists>evs. snd (request_json session self meth (p # q # rest) payload hdrs ej tr)
                        = tr @ [Request (mk p), Request (mk q)] @ evs))"
proof (intro conjI impI)
  assume "1 < n"
  with assms show "try_paths session mk n ej a (p # q # rest) tr
              = try_paths session mk n ej a (q # rest) (tr @ [Request (mk p)])"
    by (rule try_paths_not_found)
next
  assume h: "mk = make_request self meth payload hdrs \<and> 1 \<le> retries self"
  let ?ps = "p # q # rest"
  have "try_paths session mk (length ?ps) ej 1 ?ps tr
          = try_paths session mk (length ?ps) ej 1 (q # rest) (tr @ [Request (mk p)])"
    using assms by (rule try_paths_not_found) simp
  moreover obtain evs0 where
    "snd (try_paths session mk (length ?ps) ej 1 (q # rest) (tr @ [Request (mk p)]))
       = (tr @ [Request (mk p)]) @ Request (mk q) # evs0"
    using try_paths_starts by blast
  ultimately have "snd (try_paths session mk (length ?ps) ej 1 ?ps tr)
       = tr @ ([Request (mk p), Request (mk q)] @ evs0)"
    by simp
  from attempts_first [OF this]
  obtain evs where "snd (attempts session mk ej ?ps (1 # [2 .. retries self]) None tr)
       = tr @ ([Request (mk p), Request (mk q)] @ evs0) @ evs"
    by blast
  moreover have "[1 .. retries self] = 1 # [2 .. retries self]"
    using h by (simp add: upto_rec1)
  ultimately show "\<exists>evs. snd (request_json session self meth ?ps payload hdrs ej tr)
                        = tr @ [Request (mk p), Request (mk q)] @ evs"
    using h by (simp add: request_json_def)
qed

lemma client0_fields:
  "retries client0 = 3" "host client0 = ascii ''https://panel''"
  by (simp_all add: client0_def SecvestApi_init_def ascii_def)

lemma get_zones_door_open:
  "SecvestApi_get_zones panel_door_open client0 tr =
     (Inr [entry_door_open],
      tr @ [Request (make_request client0 (ascii ''GET'') None None (ascii ''/system/partitions-1/zones/'')),
            Request (make_request client0 (ascii ''GET'') None None (ascii ''/system/partitions-1/zones''))])"
  apply (simp add: SecvestApi_get_zones_def request_json_def client0_fields upto3 Let_def)
  apply (simp add: make_request_def client0_fields panel_door_open_def try_body_def read_json_def ascii_def)
  done

theorem not_found_tries_next_path_witness:
  "try_paths panel_door_open (make_request client0 (ascii ''GET'') None None) 2 True 1
     [ascii ''/system/partitions-1/zones/'', ascii ''/system/partitions-1/zones''] []
   = try_paths panel_door_open (make_request client0 (ascii ''GET'') None None) 2 True 1
       [ascii ''/system/partitions-1/zones'']
       [Request (make_request client0 (ascii ''GET'') None None (ascii ''/system/partitions-1/zones/''))]
   \<and> (\<exists>evs. snd (request_json panel_door_open client0 (ascii ''GET'')
                   [ascii ''/system/partitions-1/zones/'', ascii ''/system/partitions-1/zones'']
                   None None True [])
              = [Request (make_request client0 (ascii ''GET'') None None (ascii ''/system/partitions-1/zones/'')),
                 Request (make_request client0 (ascii ''GET'') None None (ascii ''/system/partitions-1/zones''))]
                @ evs)"
proof -
  have h: "panel_door_open [] (make_request client0 (ascii ''GET'') None None
             (ascii ''/system/partitions-1/zones/'')) = Response 404 (Body [] None)"
    by (simp add: panel_door_open_def make_request_def client0_fields ascii_def)
  note t = not_found_tries_next_path
    [where session = panel_door_open and tr = "[]"
       and mk = "make_request client0 (ascii ''GET'') None None"
       and p = "ascii ''/system/partitions-1/zones/''" and q = "ascii ''/system/partitions-1/zones''"
       and rest = "[]" and n = 2 and ej = True and a = 1
       and self = client0 and meth = "ascii ''GET''" and payload = None and hdrs = None, OF h]
  from t show ?thesis by (simp add: client0_fields)
qed

section \<open>Properties of the coordinator\<close>

lemma consistent_compose_data: "consistent (compose_data rm hm zs av err)"
  by (simp add: consistent_def compose_data_def Let_def)

lemma preserved_refl: "preserved c c"
  by (simp add: preserved_def)

lemma preserved_trans: "preserved c c' \<Longrightarrow> preserved c' c'' \<Longrightarrow> preserved c c''"
  by (auto simp: preserved_def)

lemma refresh_preserved:
  "async_refresh_zones_now a c w = (r, c', w') \<Longrightarrow> preserved c c'"
  by (auto simp: async_refresh_zones_now_def preserved_def Let_def consistent_compose_data
           split: prod.splits sum.splits option.splits)

lemma update_try_frame:
  "update_try a c w = (r, c', w') \<Longrightarrow>
     data c' = data c \<and> breaker_threshold c' = breaker_threshold c
     \<and> breaker_cooldown c' = breaker_cooldown c \<and> (\<forall>d. r = Inr d \<longrightarrow> consistent d)"
  by (auto simp: update_try_def Let_def consistent_compose_data
           split: prod.splits sum.splits option.splits if_splits)

lemma update_except_frame:
  "update_except t err c = (r, c') \<Longrightarrow>
     data c' = data c \<and> breaker_threshold c' = breaker_threshold c
     \<and> breaker_cooldown c' = breaker_cooldown c \<and> (\<forall>d. r = Inr d \<longrightarrow> consistent d)"
  by (auto simp: update_except_def Let_def consistent_compose_data
           split: option.splits if_splits)

lemma async_update_data_frame:
  assumes "async_update_data a now t c w = (r, c', w')"
  shows "data c' = data c \<and> breaker_threshold c' = breaker_threshold c
     \<and> breaker_cooldown c' = breaker_cooldown c \<and> (\<forall>d. r = Inr d \<longrightarrow> consistent d)"
proof (cases "now < breaker_until c")
  case True
  then show ?thesis using assms
    by (auto simp: async_update_data_def consistent_compose_data split: option.splits)
next
  case False
  obtain r1 c1 w1 where t: "update_try a c w = (r1, c1, w1)"
    by (cases "update_try a c w") auto
  note f1 = update_try_frame [OF t]
  show ?thesis
  proof (cases r1)
    case (Inr d)
    then show ?thesis using assms False t f1 by (simp add: async_update_data_def)
  next
    case (Inl err)
    obtain r2 c2 where e: "update_except t err c1 = (r2, c2)"
      by (cases "update_except t err c1") auto
    note f2 = update_except_frame [OF e]
    have "r = r2" "c' = c2" using assms False t Inl e by (simp_all add: async_update_data_def)
    then show ?thesis using f1 f2 by simp
  qed
qed

lemma scheduled_tick_preserved:
  assumes "scheduled_tick a now t c w = (c', w')"
  shows "preserved c c'"
proof -
  obtain r c1 w1 where u: "async_update_data a now t c w = (r, c1, w1)"
    by (cases "async_update_data a now t c w") auto
  note f = async_update_data_frame [OF u]
  show ?thesis
  proof (cases r)
    case (Inl e)
    then show ?thesis using assms u f by (simp add: scheduled_tick_def preserved_def)
  next
    case (Inr d)
    then show ?thesis using assms u f by (auto simp: scheduled_tick_def preserved_def)
  qed
qed

lemma request_refresh_preserved: "preserved c (async_request_refresh c)"
  by (simp add: async_request_refresh_def preserved_def)

lemma alarm_set_mode_preserved:
  "SecvestAlarm_set_mode a m c w = (r, c', w') \<Longrightarrow> preserved c c'"
  by (auto simp: SecvestAlarm_set_mode_def preserved_refl request_refresh_preserved
           split: prod.splits sum.splits)

lemma arm_preserved:
  assumes "arm_with_live_zone_refresh a m c w = (r, c', w')"
  shows "preserved c c'"
proof -
  obtain r1 c1 w1 where u: "async_refresh_zones_now a c w = (r1, c1, w1)"
    by (cases "async_refresh_zones_now a c w") auto
  note p1 = refresh_preserved [OF u]
  have "preserved c1 c'"
    using assms u
    by (auto simp: arm_with_live_zone_refresh_def preserved_refl
             split: option.splits if_splits intro: alarm_set_mode_preserved)
  with p1 show ?thesis by (rule preserved_trans)
qed

lemma handle_set_mode_preserved:
  assumes "handle_set_mode a mode c w = (r, c', w')"
  shows "preserved c c'"
proof (cases "\<exists>m. mode = JStr m \<and> m \<in> VALID_MODES")
  case False
  then have "c' = c" using assms
    by (auto simp: handle_set_mode_def split: json.splits if_splits)
  then show ?thesis by (simp add: preserved_refl)
next
  case True
  then obtain m where m: "mode = JStr m" "m \<in> VALID_MODES" by blast
  obtain r1 c1 w1 where u: "async_refresh_zones_now a c w = (r1, c1, w1)"
    by (cases "async_refresh_zones_now a c w") auto
  note p1 = refresh_preserved [OF u]
  have "preserved c1 c'"
    using assms u m
    by (auto simp: handle_set_mode_def preserved_refl request_refresh_preserved
             split: sum.splits option.splits if_splits prod.splits)
  with p1 show ?thesis by (rule preserved_trans)
qed

lemma step_preserved: "step a (c, w) x = (c', w') \<Longrightarrow> preserved c c'"
proof (cases x)
  case (Tick now t)
  assume "step a (c, w) x = (c', w')"
  then show ?thesis using Tick by (simp add: scheduled_tick_preserved)
next
  case RefreshZonesNow
  assume "step a (c, w) x = (c', w')"
  then show ?thesis using RefreshZonesNow
    by (cases "async_refresh_zones_now a c w") (auto intro: refresh_preserved)
next
  case (ServiceSetMode mode)
  assume "step a (c, w) x = (c', w')"
  then show ?thesis using ServiceSetMode
    by (cases "handle_set_mode a mode c w") (auto intro: handle_set_mode_preserved)
next
  case ArmHome
  assume "step a (c, w) x = (c', w')"
  then show ?thesis using ArmHome
    by (cases "async_arm_home a c w") (auto simp: async_arm_home_def intro: arm_preserved)
next
  case ArmAway
  assume "step a (c, w) x = (c', w')"
  then show ?thesis using ArmAway
    by (cases "async_arm_away a c w") (auto simp: async_arm_away_def intro: arm_preserved)
next
  case Disarm
  assume "step a (c, w) x = (c', w')"
  then show ?thesis using Disarm
    by (cases "async_disarm a c w") (auto simp: async_disarm_def intro: alarm_set_mode_preserved)
qed

lemma run_preserved: "preserved c (fst (run a ops (c, w)))"
proof (induction ops arbitrary: c w)
  case Nil
  then show ?case by (simp add: run_def preserved_refl)
next
  case (Cons x ops)
  obtain c1 w1 where s: "step a (c, w) x = (c1, w1)"
    by (cases "step a (c, w) x") auto
  have "preserved c c1" using s by (rule step_preserved)
  moreover have "preserved c1 (fst (run a ops (c1, w1)))" by (rule Cons.IH)
  ultimately have "preserved c (fst (run a ops (c1, w1)))" by (rule preserved_trans)
  then show ?case using s by (simp add: run_def)
qed

text \<open>
  C10. The constructor sets the breaker threshold to \<open>max 1\<close> of the configured value and the
  cooldown to \<open>max 10\<close> of the configured value, whatever integers are configured, and after
  any run of operations on the coordinator (ticks, forced refreshes, the service, the commands
  of the alarm entity), with any client, the threshold is at least 1 and the cooldown at least
  10 seconds.
\<close>

theorem breaker_bounds_invariant:
  "breaker_threshold (SecvestCoordinator_init scan name_map zi threshold cooldown) = max 1 threshold
   \<and> breaker_cooldown (SecvestCoordinator_init scan name_map zi threshold cooldown) = max 10 cooldown
   \<and> 1 \<le> breaker_threshold (fst (run a ops (SecvestCoordinator_init scan name_map zi threshold cooldown, w)))
   \<and> 10 \<le> breaker_cooldown (fst (run a ops (SecvestCoordinator_init scan name_map zi threshold cooldown, w)))"
proof -
  let ?c = "SecvestCoordinator_init scan name_map zi threshold cooldown"
  have i: "breaker_threshold ?c = max 1 threshold" "breaker_cooldown ?c = max 10 cooldown"
    by (simp_all add: SecvestCoordinator_init_def)
  have "preserved ?c (fst (run a ops (?c, w)))" by (rule run_preserved)
  then show ?thesis using i by (simp add: preserved_def)
qed

text \<open>
  C6. Every snapshot is built by \<^verbatim>\<open>_compose_data\<close>, which computes the three derived fields
  from the zones dict it is given: \<open>open_zone_names\<close> is the list of the friendly names of the
  zones whose state is \<^verbatim>\<open>open\<close>, in the order of the dict, and the CSV and spoken texts are
  made from that list. So the snapshot published after any run of operations, if there is
  one, is consistent.
\<close>

theorem published_snapshot_consistent:
  "consistent (compose_data rm hm zs av err)
   \<and> (case data (fst (run a ops (SecvestCoordinator_init scan name_map zi threshold cooldown, w))) of
        None \<Rightarrow> True
      | Some d \<Rightarrow> consistent d)"
proof -
  let ?c = "SecvestCoordinator_init scan name_map zi threshold cooldown"
  have i: "data ?c = None" by (simp add: SecvestCoordinator_init_def)
  have "preserved ?c (fst (run a ops (?c, w)))" by (rule run_preserved)
  then show ?thesis using i
    by (auto simp: preserved_def consistent_compose_data split: option.splits)
qed

section \<open>Properties of the polling and of the commands\<close>

lemma build_door: "build_zones_dict [entry_door_open] Map.empty =
   [(ascii ''Door'', \<lparr>name = ascii ''Door'', friendly_name = ascii ''Door'', state = ascii ''open''\<rparr>)]"
  by (simp add: build_zones_dict_def zone_entry_def dict_get_def normalize_name_def replace_def
        friendly_of_def py_or_def entry_door_open_def ascii_def Let_def)

lemma get_zones_api_door_open [simp]:
  "get_zones api_door_open tr = (Inr [entry_door_open], tr @ zones_requests)"
  by (simp add: api_door_open_def secvest_api_def get_zones_door_open zones_requests_def)

lemma request_down:
  "request_json panel_down client0 (ascii ''GET'') (p # ps) None None True tr
     = (Inl timed_out, tr @ failed_attempts p)"
proof -
  have h: "\<forall>tr rq. persistent_failure (panel_down tr rq)" by (simp add: panel_down_def)
  have f: "failure_exn (panel_down t q) = TimeoutError" for t q by (simp add: panel_down_def)
  show ?thesis
    unfolding request_json_def attempts_failure [OF h]
    by (simp add: client0_fields upto3 f timed_out_def)
qed

lemma get_mode_api_down [simp]:
  "get_mode api_down tr = (Inl timed_out, tr @ failed_attempts (ascii ''/system/partitions-1/state''))"
  by (simp add: api_down_def secvest_api_def SecvestApi_get_mode_def request_down del: failed_attempts.simps)

lemma get_zones_api_down [simp]:
  "get_zones api_down tr = (Inl timed_out, tr @ failed_attempts (ascii ''/system/partitions-1/zones/''))"
  by (simp add: api_down_def secvest_api_def SecvestApi_get_zones_def request_down del: failed_attempts.simps)

lemma refresh_published0:
  "async_refresh_zones_now api_door_open coordinator0 [] = (Inr (), published0, zones_requests)"
  by (simp add: async_refresh_zones_now_def coordinator0_def SecvestCoordinator_init_def
        build_door published0_def door_snapshot_def Let_def)

lemma door_snapshot_names: "open_zone_names door_snapshot = [ascii ''Door'']"
  by (simp add: door_snapshot_def compose_data_def Let_def)

lemma update_try_failed:
  "update_try a c w = (Inl err, c1, w1) \<Longrightarrow>
     data c1 = data c \<and> consecutive_failures c1 = consecutive_failures c
     \<and> breaker_threshold c1 = breaker_threshold c \<and> breaker_cooldown c1 = breaker_cooldown c
     \<and> breaker_until c1 = breaker_until c"
  by (auto simp: update_try_def Let_def split: prod.splits sum.splits if_splits)

lemma async_update_data_failed:
  assumes "\<not> now < breaker_until c" and "update_try a c w = (Inl err, c1, w1)"
  shows "async_update_data a now t c w = (fst (update_except t err c1), snd (update_except t err c1), w1)"
  using assms by (simp add: async_update_data_def split: prod.splits)

text \<open>
  C2. A scheduled tick that is not short-circuited and whose \<^verbatim>\<open>try\<close> block raises a timeout or
  an API error \<open>err\<close> (from \<^verbatim>\<open>get_mode\<close> or from \<^verbatim>\<open>get_zones\<close>): when a snapshot exists,
  \<^verbatim>\<open>_async_update_data\<close> returns, and the tick publishes, the snapshot with the last known
  mode and zones, \<open>available = False\<close> and the text \<^verbatim>\<open>repr(err)\<close>; it raises \<^verbatim>\<open>UpdateFailed\<close>,
  and the host keeps \<open>data\<close> empty, exactly when no snapshot exists.
\<close>

theorem failed_tick_degrades:
  assumes "\<not> now < breaker_until c"
    and "update_try a c w = (Inl err, c1, w1)"
    and "err = TimeoutError \<or> is_api_error err"
  shows "fst (async_update_data a now t c w) =
           (case data c of
              Some d \<Rightarrow> Inr (compose_data (raw_mode d) (human_mode d) (zones d) False (Some (Repr err)))
            | None \<Rightarrow> Inl (UpdateFailed (Repr err)))
         \<and> data (fst (scheduled_tick a now t c w)) =
           (case data c of
              Some d \<Rightarrow> Some (compose_data (raw_mode d) (human_mode d) (zones d) False (Some (Repr err)))
            | None \<Rightarrow> None)"
proof -
  note f = update_try_failed [OF assms(2)]
  note u = async_update_data_failed [OF assms(1,2), of t]
  show ?thesis
  proof (cases "data c")
    case None
    then show ?thesis using f u
      by (simp add: scheduled_tick_def update_except_def Let_def msg_or_def)
  next
    case (Some d)
    then show ?thesis using f u
      by (simp add: scheduled_tick_def update_except_def Let_def)
  qed
qed

text \<open>
  C3. When a tick fails and the failure counter thereby reaches the threshold, the breaker is
  open until the time read in the handler plus the cooldown. On every tick whose time is
  before \<open>breaker_until\<close>, \<^verbatim>\<open>_async_update_data\<close> leaves the coordinator and everything
  outside as they are (the client is not called) and returns the last known snapshot with
  \<open>available = False\<close>, or raises \<^verbatim>\<open>UpdateFailed\<close> when there is none; the tick publishes
  that snapshot.
\<close>

theorem breaker_opens_and_short_circuits:
  "(\<not> now < breaker_until c \<and> update_try a c w = (Inl err, c1, w1)
      \<and> breaker_threshold c \<le> consecutive_failures c + 1
      \<longrightarrow> breaker_until (fst (scheduled_tick a now t c w)) = t + real_of_int (breaker_cooldown c))
   \<and> (now < breaker_until c \<longrightarrow>
        async_update_data a now t c w =
          ((case data c of
              Some d \<Rightarrow>
                Inr (compose_data (raw_mode d) (human_mode d) (zones d) False
                       (Some (msg_or (self_last_error c) (Lit (ascii ''Circuit breaker active'')))))
            | None \<Rightarrow> Inl (UpdateFailed (Lit (ascii ''Circuit breaker active'')))),
           c, w)
        \<and> snd (scheduled_tick a now t c w) = w
        \<and> data (fst (scheduled_tick a now t c w)) =
            map_option
              (\<lambda>d. compose_data (raw_mode d) (human_mode d) (zones d) False
                      (Some (msg_or (self_last_error c) (Lit (ascii ''Circuit breaker active'')))))
              (data c))"
proof (intro conjI impI)
  assume h: "\<not> now < breaker_until c \<and> update_try a c w = (Inl err, c1, w1)
      \<and> breaker_threshold c \<le> consecutive_failures c + 1"
  then have n: "\<not> now < breaker_until c" and u: "update_try a c w = (Inl err, c1, w1)"
    and th: "breaker_threshold c \<le> consecutive_failures c + 1"
    by simp_all
  note f = update_try_failed [OF u]
  note d = async_update_data_failed [OF n u, of t]
  show "breaker_until (fst (scheduled_tick a now t c w)) = t + real_of_int (breaker_cooldown c)"
    using f d th
    by (cases "data c") (simp_all add: scheduled_tick_def update_except_def Let_def)
next
  assume "now < breaker_until c"
  then show "async_update_data a now t c w =
          ((case data c of
              Some d \<Rightarrow>
                Inr (compose_data (raw_mode d) (human_mode d) (zones d) False
                       (Some (msg_or (self_last_error c) (Lit (ascii ''Circuit breaker active'')))))
            | None \<Rightarrow> Inl (UpdateFailed (Lit (ascii ''Circuit breaker active'')))),
           c, w)"
    by (simp add: async_update_data_def split: option.splits)
next
  assume "now < breaker_until c"
  then show "snd (scheduled_tick a now t c w) = w"
    by (simp add: scheduled_tick_def async_update_data_def split: option.splits)
next
  assume "now < breaker_until c"
  then show "data (fst (scheduled_tick a now t c w)) =
            map_option
              (\<lambda>d. compose_data (raw_mode d) (human_mode d) (zones d) False
                      (Some (msg_or (self_last_error c) (Lit (ascii ''Circuit breaker active'')))))
              (data c)"
    by (simp add: scheduled_tick_def async_update_data_def split: option.splits)
qed

text \<open>
  C7, as the code has it. A forced zone refresh never looks at the breaker: it always calls
  \<^verbatim>\<open>get_zones\<close>, once. When that call succeeds, the failure counter, the breaker timestamp
  and the last error are cleared and a snapshot with the new zones, marked available, is
  published at once, also while the breaker is open. When the call raises, the exception
  leaves the method and the coordinator is as it was.
\<close>

theorem forced_refresh_bypasses_breaker:
  "snd (snd (async_refresh_zones_now a c w)) = snd (get_zones a w)
   \<and> (\<forall>zones_payload. fst (get_zones a w) = Inr zones_payload \<longrightarrow>
        fst (async_refresh_zones_now a c w) = Inr ()
        \<and> consecutive_failures (fst (snd (async_refresh_zones_now a c w))) = 0
        \<and> breaker_until (fst (snd (async_refresh_zones_now a c w))) = 0
        \<and> self_last_error (fst (snd (async_refresh_zones_now a c w))) = None
        \<and> data (fst (snd (async_refresh_zones_now a c w))) =
            Some (case data c of
                    Some d \<Rightarrow> compose_data (raw_mode d) (human_mode d)
                                (build_zones_dict zones_payload (zone_name_map c)) True (last_error d)
                  | None \<Rightarrow> compose_data None None
                                (build_zones_dict zones_payload (zone_name_map c)) True None)
        \<and> (\<forall>d. data (fst (snd (async_refresh_zones_now a c w))) = Some d \<longrightarrow> available d))
   \<and> (\<forall>e. fst (get_zones a w) = Inl e \<longrightarrow>
        async_refresh_zones_now a c w = (Inl e, c, snd (get_zones a w)))"
proof (cases "get_zones a w")
  case (Pair r w')
  show ?thesis
  proof (cases r)
    case (Inl e)
    then show ?thesis using Pair by (simp add: async_refresh_zones_now_def)
  next
    case (Inr zones_payload)
    then show ?thesis using Pair
      by (cases "data c") (simp_all add: async_refresh_zones_now_def Let_def compose_data_def)
  qed
qed

lemma try_paths_requests:
  "\<exists>evs. snd (try_paths session mk n ej a ps tr) = tr @ evs
         \<and> (\<forall>rq. Request rq \<in> set evs \<longrightarrow> rq \<in> mk ` set ps)"
proof (induction ps arbitrary: tr)
  case Nil
  then show ?case by simp
next
  case (Cons p ps)
  obtain evs where e: "snd (try_paths session mk n ej a ps (tr @ [Request (mk p)])) = (tr @ [Request (mk p)]) @ evs"
    and r: "\<forall>rq. Request rq \<in> set evs \<longrightarrow> rq \<in> mk ` set ps"
    using Cons.IH by blast
  show ?case
  proof (cases "try_body n ej (url (mk p)) (session tr (mk p))")
    case Continue
    then have "snd (try_paths session mk n ej a (p # ps) tr) = tr @ (Request (mk p) # evs)"
      using e by (simp add: Let_def)
    moreover have "\<forall>rq. Request rq \<in> set (Request (mk p) # evs) \<longrightarrow> rq \<in> mk ` set (p # ps)"
      using r by auto
    ultimately show ?thesis by blast
  next
    case (Return v)
    then have "snd (try_paths session mk n ej a (p # ps) tr) = tr @ [Request (mk p)]"
      by (simp add: Let_def)
    moreover have "\<forall>rq. Request rq \<in> set [Request (mk p)] \<longrightarrow> rq \<in> mk ` set (p # ps)"
      by simp
    ultimately show ?thesis by blast
  next
    case (Throw x)
    then have "snd (try_paths session mk n ej a (p # ps) tr) = tr @ [Request (mk p)]
               \<or> snd (try_paths session mk n ej a (p # ps) tr) = tr @ [Request (mk p), Sleep a]"
      by (simp add: Let_def)
    moreover have "\<forall>rq. Request rq \<in> set [Request (mk p)] \<longrightarrow> rq \<in> mk ` set (p # ps)"
      "\<forall>rq. Request rq \<in> set [Request (mk p), Sleep a] \<longrightarrow> rq \<in> mk ` set (p # ps)"
      by simp_all
    ultimately show ?thesis by blast
  qed
qed

lemma attempts_requests:
  "\<exists>evs. snd (attempts session mk ej ps as last_exc tr) = tr @ evs
         \<and> (\<forall>rq. Request rq \<in> set evs \<longrightarrow> rq \<in> mk ` set ps)"
proof (induction as arbitrary: last_exc tr)
  case Nil
  then show ?case by simp
next
  case (Cons a as)
  obtain r tr' where t: "try_paths session mk (length ps) ej a ps tr = (r, tr')"
    by (cases "try_paths session mk (length ps) ej a ps tr")
  obtain evs where e: "tr' = tr @ evs" and q: "\<forall>rq. Request rq \<in> set evs \<longrightarrow> rq \<in> mk ` set ps"
    using try_paths_requests [of session mk "length ps" ej a ps tr] t by auto
  have more: "\<exists>evs2. snd (attempts session mk ej ps as l tr') = tr @ evs2
         \<and> (\<forall>rq. Request rq \<in> set evs2 \<longrightarrow> rq \<in> mk ` set ps)" for l
  proof -
    obtain evs' where "snd (attempts session mk ej ps as l tr') = tr' @ evs'"
      and "\<forall>rq. Request rq \<in> set evs' \<longrightarrow> rq \<in> mk ` set ps"
      using Cons.IH by blast
    then have "snd (attempts session mk ej ps as l tr') = tr @ (evs @ evs')"
      and "\<forall>rq. Request rq \<in> set (evs @ evs') \<longrightarrow> rq \<in> mk ` set ps"
      using e q by auto
    then show ?thesis by blast
  qed
  show ?case
  proof (cases r)
    case (Returned v)
    then show ?thesis using t e q by auto
  next
    case (Raised x)
    then show ?thesis using t e q by auto
  next
    case (Failed x)
    then show ?thesis using t more [of "Some x"] by simp
  next
    case Exhausted
    then show ?thesis using t more [of last_exc] by simp
  qed
qed

lemma get_zones_requests:
  "\<exists>evs. snd (SecvestApi_get_zones session self tr) = tr @ evs
         \<and> (\<forall>rq. Request rq \<in> set evs \<longrightarrow> http_method rq = ascii ''GET'')"
proof -
  let ?mk = "make_request self (ascii ''GET'') None None"
  let ?ps = "[ascii ''/system/partitions-1/zones/'', ascii ''/system/partitions-1/zones'']"
  obtain evs where e: "snd (attempts session ?mk True ?ps [1 .. retries self] None tr) = tr @ evs"
    and q: "\<forall>rq. Request rq \<in> set evs \<longrightarrow> rq \<in> ?mk ` set ?ps"
    using attempts_requests by blast
  have "snd (SecvestApi_get_zones session self tr) = snd (attempts session ?mk True ?ps [1 .. retries self] None tr)"
    by (simp add: SecvestApi_get_zones_def request_json_def split: prod.splits sum.splits option.splits json.splits)
  moreover have "\<forall>rq. Request rq \<in> set evs \<longrightarrow> http_method rq = ascii ''GET''"
    using q by (auto simp: make_request_def)
  ultimately show ?thesis using e by auto
qed

lemma refresh_world: "snd (snd (async_refresh_zones_now a c w)) = snd (get_zones a w)"
  by (simp add: async_refresh_zones_now_def Let_def split: prod.splits sum.splits)

text \<open>
  C1, as the code has it. The service \<^verbatim>\<open>handle_set_mode\<close> with mode \<^verbatim>\<open>set\<close> or \<^verbatim>\<open>partset\<close>,
  and the arm commands of the alarm entity, first force a zone refresh, which calls the
  client's \<^verbatim>\<open>get_zones\<close>. When the snapshot after that refresh has open zones, the command
  raises a \<^verbatim>\<open>HomeAssistantError\<close> (the service passes on the exception of a failed refresh
  instead) and the client is not called again: everything outside is as \<^verbatim>\<open>get_zones\<close> left
  it, so \<^verbatim>\<open>set_mode\<close> is not called, and every request that \<^verbatim>\<open>get_zones\<close> of the client sends
  is a GET.
\<close>

theorem arming_refused_while_zone_open:
  assumes "m = ascii ''set'' \<or> m = ascii ''partset''"
    and "async_refresh_zones_now a c w = (r, c1, w1)"
    and "data c1 = Some d"
    and "open_zone_names d \<noteq> []"
  shows "w1 = snd (get_zones a w)
    \<and> (r = Inr () \<longrightarrow>
         handle_set_mode a (JStr m) c w =
           (Inl (HomeAssistantError
                   (Msg (if open_zones_spoken d \<noteq> [] then open_zones_spoken d
                         else ascii ''Offene Zonen verhindern Aktivierung.''))),
            c1, w1))
    \<and> (\<forall>e. r = Inl e \<longrightarrow> handle_set_mode a (JStr m) c w = (Inl e, c1, w1))
    \<and> arm_with_live_zone_refresh a m c w =
         (Inl (HomeAssistantError
                 (Msg (if open_zones_spoken d \<noteq> [] then open_zones_spoken d
                       else ascii ''Offene Zonen: '' @ join (ascii '', '') (open_zone_names d)))),
          c1, w1)
    \<and> (\<forall>session self tr. \<exists>evs.
          snd (SecvestApi_get_zones session self tr) = tr @ evs
          \<and> (\<forall>rq. Request rq \<in> set evs \<longrightarrow> http_method rq = ascii ''GET''))"
proof -
  have v: "m \<in> VALID_MODES" using assms(1) by (auto simp: VALID_MODES_def)
  have w1: "w1 = snd (get_zones a w)"
    using refresh_world [of a c w] assms(2) by simp
  have s1: "r = Inr () \<longrightarrow>
         handle_set_mode a (JStr m) c w =
           (Inl (HomeAssistantError
                   (Msg (if open_zones_spoken d \<noteq> [] then open_zones_spoken d
                         else ascii ''Offene Zonen verhindern Aktivierung.''))),
            c1, w1)"
    using v assms by (auto simp: handle_set_mode_def)
  have s2: "\<forall>e. r = Inl e \<longrightarrow> handle_set_mode a (JStr m) c w = (Inl e, c1, w1)"
    using v assms by (auto simp: handle_set_mode_def)
  have s3: "arm_with_live_zone_refresh a m c w =
         (Inl (HomeAssistantError
                 (Msg (if open_zones_spoken d \<noteq> [] then open_zones_spoken d
                       else ascii ''Offene Zonen: '' @ join (ascii '', '') (open_zone_names d)))),
          c1, w1)"
    using assms by (simp add: arm_with_live_zone_refresh_def)
  show ?thesis using w1 s1 s2 s3 get_zones_requests by blast
qed

lemma update_try_down:
  "update_try api_down c w
     = (Inl timed_out, c, w @ failed_attempts (ascii ''/system/partitions-1/state''))"
  by (simp add: update_try_def del: failed_attempts.simps)

lemmas fixture_defs =
  published0_def coordinator0_def SecvestCoordinator_init_def door_snapshot_def
  degraded_snapshot_def compose_data_def Let_def

lemma tick_down_evals:
  "scheduled_tick api_down 1 2 published0 [] =
     (published0\<lparr>consecutive_failures := 1, self_last_error := Some (Repr timed_out),
                 data := Some degraded_snapshot\<rparr>,
      failed_attempts (ascii ''/system/partitions-1/state''))"
  "twice_failed =
     (published0\<lparr>consecutive_failures := 2, self_last_error := Some (Repr timed_out),
                 data := Some degraded_snapshot\<rparr>,
      failed_attempts (ascii ''/system/partitions-1/state'')
        @ failed_attempts (ascii ''/system/partitions-1/state''))"
  "tripped =
     (published0\<lparr>consecutive_failures := 3, self_last_error := Some (Repr timed_out),
                 breaker_until := 362, data := Some degraded_snapshot\<rparr>,
      failed_attempts (ascii ''/system/partitions-1/state'')
        @ failed_attempts (ascii ''/system/partitions-1/state'')
        @ failed_attempts (ascii ''/system/partitions-1/state''))"
  by (simp_all add: tripped_def twice_failed_def run_def scheduled_tick_def async_update_data_def
        update_try_down update_except_def fixture_defs del: failed_attempts.simps)

theorem failed_tick_degrades_witness:
  "fst (async_update_data api_down 1 2 published0 []) = Inr degraded_snapshot
   \<and> data (fst (scheduled_tick api_down 1 2 published0 [])) = Some degraded_snapshot
   \<and> fst (async_update_data api_down 1 2 coordinator0 []) = Inl (UpdateFailed (Repr timed_out))"
proof -
  have n: "\<not> (1::real) < breaker_until published0" "\<not> (1::real) < breaker_until coordinator0"
    by (simp_all add: fixture_defs)
  have e: "timed_out = TimeoutError \<or> is_api_error timed_out" by (simp add: timed_out_def)
  from failed_tick_degrades [OF n(1) update_try_down e, of 2]
       failed_tick_degrades [OF n(2) update_try_down e, of 2]
  show ?thesis by (simp add: fixture_defs)
qed

lemma step_tick: "step a cw (Tick now t) = scheduled_tick a now t (fst cw) (snd cw)"
  by (cases cw) simp

theorem breaker_opens_and_short_circuits_witness:
  "breaker_until (fst tripped) = 362
   \<and> snd (scheduled_tick api_down 100 101 (fst tripped) (snd tripped)) = snd tripped
   \<and> data (fst (scheduled_tick api_down 100 101 (fst tripped) (snd tripped))) = Some degraded_snapshot"
proof -
  have t: "tripped = scheduled_tick api_down 61 62 (fst twice_failed) (snd twice_failed)"
    by (simp add: tripped_def run_def step_tick)
  have h1: "\<not> 61 < breaker_until (fst twice_failed)
      \<and> update_try api_down (fst twice_failed) (snd twice_failed)
           = (Inl timed_out, fst twice_failed,
              snd twice_failed @ failed_attempts (ascii ''/system/partitions-1/state''))
      \<and> breaker_threshold (fst twice_failed) \<le> consecutive_failures (fst twice_failed) + 1"
    by (simp add: tick_down_evals(2) update_try_down fixture_defs del: failed_attempts.simps)
  have h2: "100 < breaker_until (fst tripped)"
    by (simp add: tick_down_evals(3))
  have c: "breaker_cooldown (fst twice_failed) = 300"
    by (simp add: tick_down_evals(2) fixture_defs)
  note o = breaker_opens_and_short_circuits
    [where a = api_down and c = "fst twice_failed" and w = "snd twice_failed" and now = 61 and t = 62,
     THEN conjunct1, rule_format, OF h1]
  note s = breaker_opens_and_short_circuits
    [where a = api_down and c = "fst tripped" and w = "snd tripped" and now = 100 and t = 101,
     THEN conjunct2, rule_format, OF h2]
  have a: "breaker_until (fst tripped) = 362" using o by (simp add: t c)
  have b: "snd (scheduled_tick api_down 100 101 (fst tripped) (snd tripped)) = snd tripped"
    using s by (rule conjunct1 [OF conjunct2])
  have d: "data (fst (scheduled_tick api_down 100 101 (fst tripped) (snd tripped))) = Some degraded_snapshot"
    using s [THEN conjunct2, THEN conjunct2] by (simp add: tick_down_evals(3) fixture_defs msg_or_def)
  show ?thesis using a b d by simp
qed

theorem forced_refresh_bypasses_breaker_witness:
  "fst (async_refresh_zones_now api_door_open (fst tripped) (snd tripped)) = Inr ()
   \<and> consecutive_failures (fst (snd (async_refresh_zones_now api_door_open (fst tripped) (snd tripped)))) = 0
   \<and> breaker_until (fst (snd (async_refresh_zones_now api_door_open (fst tripped) (snd tripped)))) = 0
   \<and> snd (snd (async_refresh_zones_now api_door_open (fst tripped) (snd tripped)))
       = snd tripped @ zones_requests
   \<and> async_refresh_zones_now api_down (fst tripped) (snd tripped)
       = (Inl timed_out, fst tripped,
          snd tripped @ failed_attempts (ascii ''/system/partitions-1/zones/''))"
  using forced_refresh_bypasses_breaker [of api_door_open "fst tripped" "snd tripped"]
    forced_refresh_bypasses_breaker [of api_down "fst tripped" "snd tripped"]
  by (simp del: failed_attempts.simps)

text \<open>
  C7 as the specification states it fails: while the breaker is open and the panel does not
  answer, the forced refresh raises and clears nothing; the counter is still 3, the breaker
  is still open until 362 and the snapshot is still the unavailable one.
\<close>

theorem forced_refresh_fails_while_breaker_open:
  "fst (async_refresh_zones_now api_down (fst tripped) (snd tripped)) = Inl timed_out
   \<and> consecutive_failures (fst (snd (async_refresh_zones_now api_down (fst tripped) (snd tripped)))) = 3
   \<and> breaker_until (fst (snd (async_refresh_zones_now api_down (fst tripped) (snd tripped)))) = 362
   \<and> data (fst (snd (async_refresh_zones_now api_down (fst tripped) (snd tripped)))) = Some degraded_snapshot
   \<and> \<not> available degraded_snapshot"
  by (simp add: async_refresh_zones_now_def tick_down_evals(3) fixture_defs del: failed_attempts.simps)

theorem arming_refused_while_zone_open_witness:
  "handle_set_mode api_door_open (JStr (ascii ''set'')) coordinator0 []
     = (Inl (HomeAssistantError (Msg (open_zones_spoken door_snapshot))), published0, zones_requests)
   \<and> arm_with_live_zone_refresh api_door_open (ascii ''set'') coordinator0 []
     = (Inl (HomeAssistantError (Msg (open_zones_spoken door_snapshot))), published0, zones_requests)
   \<and> handle_set_mode api_down (JStr (ascii ''partset'')) published0 []
     = (Inl timed_out, published0, failed_attempts (ascii ''/system/partitions-1/zones/''))
   \<and> arm_with_live_zone_refresh api_down (ascii ''partset'') published0 []
     = (Inl (HomeAssistantError (Msg (open_zones_spoken door_snapshot))), published0,
        failed_attempts (ascii ''/system/partitions-1/zones/''))"
proof -
  have m: "ascii ''set'' = ascii ''set'' \<or> ascii ''set'' = ascii ''partset''"
    "ascii ''partset'' = ascii ''set'' \<or> ascii ''partset'' = ascii ''partset''"
    by simp_all
  have d: "data published0 = Some door_snapshot" by (simp add: published0_def)
  have o: "open_zone_names door_snapshot \<noteq> []" by (simp add: door_snapshot_names)
  have sp: "open_zones_spoken door_snapshot \<noteq> []"
    by (simp add: door_snapshot_def compose_data_def Let_def make_spoken_zone_list_def)
  have down: "async_refresh_zones_now api_down published0 []
                = (Inl timed_out, published0, failed_attempts (ascii ''/system/partitions-1/zones/''))"
    by (simp add: async_refresh_zones_now_def del: failed_attempts.simps)
  from arming_refused_while_zone_open [OF m(1) refresh_published0 d o]
       arming_refused_while_zone_open [OF m(2) down d o]
  show ?thesis using sp by (simp del: failed_attempts.simps)
qed

text \<open>
  C1 as the specification states it fails: with an open zone in the current snapshot, the
  service with mode \<^verbatim>\<open>set\<close> does call the client; the two requests of \<^verbatim>\<open>get_zones\<close> are in
  the trace.
\<close>

theorem set_mode_service_calls_get_zones:
  "data published0 = Some door_snapshot
   \<and> open_zone_names door_snapshot = [ascii ''Door'']
   \<and> snd (snd (handle_set_mode api_door_open (JStr (ascii ''set'')) published0 [])) = zones_requests"
  by (simp add: handle_set_mode_def VALID_MODES_def async_refresh_zones_now_def build_door
        door_snapshot_names fixture_defs)

theorem breaker_bounds_invariant_witness:
  "1 \<le> breaker_threshold (fst (run api_down [Tick 1 2, RefreshZonesNow, ArmAway]
           (SecvestCoordinator_init 30 Map.empty 120 0 (- 5), [])))
   \<and> 10 \<le> breaker_cooldown (fst (run api_down [Tick 1 2, RefreshZonesNow, ArmAway]
           (SecvestCoordinator_init 30 Map.empty 120 0 (- 5), [])))"
  using breaker_bounds_invariant [of 30 Map.empty 120 0 "- 5" api_down "[Tick 1 2, RefreshZonesNow, ArmAway]" "[]"]
  by simp

theorem published_snapshot_consistent_witness:
  "data (fst (run api_door_open [RefreshZonesNow] (coordinator0, []))) = Some door_snapshot
   \<and> consistent door_snapshot"
proof -
  have r: "run api_door_open [RefreshZonesNow] (coordinator0, []) = (published0, zones_requests)"
    by (simp add: run_def refresh_published0)
  from published_snapshot_consistent
    [of None None "[]" True None api_door_open "[RefreshZonesNow]" 30 Map.empty 120 3 300 "[]"]
  show ?thesis by (simp add: r published0_def coordinator0_def [symmetric])
qed

end
